(* ===== verification/C_Prelude.thy ===== *)
theory C_Prelude
  imports Main "HOL-Library.Word" "HOL-Library.Monad_Syntax"
begin

text \<open>
  What every component of the model shares: machine types under the LP64 rules of the
  build (x86-64 Linux), bounded array accesses, C strings in character arrays,
  little-endian integers, and the lemmas that let the component proofs run by
  simplification. A computation of type \<open>'a option\<close> is one the C program may not
  survive: \<open>None\<close> stands for undefined behaviour (an access outside an array, a
  dereference of a null or wild pointer, a string without terminator, a signed overflow).
\<close>

section \<open>Types and collections of rules\<close>

type_synonym byte = "8 word"
type_synonym c_short = "16 word"
type_synonym c_int = "32 word"
type_synonym c_long = "64 word"

named_theorems c_mem \<open>array accesses and updates that stay in bounds\<close>
named_theorems c_str \<open>C strings in character arrays\<close>
named_theorems layout \<open>sizes of object representations\<close>

lemma option_bind_SomeD:
  "Option.bind m f = Some y \<Longrightarrow> \<exists>x. m = Some x \<and> f x = Some y"
  by (cases m) auto

section \<open>Integers\<close>

text \<open>A signed \<open>int\<close> result: \<open>None\<close> when the value is not representable.\<close>

definition int_ok :: "int \<Rightarrow> bool" where
  "int_ok x \<longleftrightarrow> - (2 ^ 31) \<le> x \<and> x < 2 ^ 31"

definition checked_int :: "int \<Rightarrow> int option" where
  "checked_int x = (if int_ok x then Some x else None)"

text \<open>Conversion of a wider value to \<open>int\<close>, which keeps the low 32 bits.\<close>

definition wrap32 :: "int \<Rightarrow> int" where
  "wrap32 x = (x + 2 ^ 31) mod 2 ^ 32 - 2 ^ 31"

lemma checked_int_Some [simp]: "int_ok x \<Longrightarrow> checked_int x = Some x"
  by (simp add: checked_int_def)

lemma checked_int_SomeD: "checked_int x = Some y \<Longrightarrow> y = x \<and> int_ok x"
  by (auto simp: checked_int_def split: if_splits)

lemma wrap32_id: "int_ok x \<Longrightarrow> wrap32 x = x"
  by (simp add: wrap32_def int_ok_def)

lemma int_ok_wrap32: "int_ok (wrap32 x)"
proof -
  have "0 \<le> (x + 2 ^ 31) mod 2 ^ 32" and "(x + 2 ^ 31) mod 2 ^ 32 < (2 :: int) ^ 32"
    by (rule pos_mod_sign, simp, rule pos_mod_bound, simp)
  then show ?thesis unfolding int_ok_def wrap32_def by simp
qed

lemma wrap32_signed_take_bit: "wrap32 x = sint (word_of_int x :: 32 word)"
  by (simp add: wrap32_def sint_sbintrunc' signed_take_bit_eq_take_bit_shift
      take_bit_eq_mod add.commute)

lemma sint_inject: "sint v = sint w \<longleftrightarrow> v = (w :: 'a::len word)"
  by (metis of_int_sint scast_id)

section \<open>Arrays\<close>

definition arr_get :: "'a list \<Rightarrow> int \<Rightarrow> 'a option" where
  "arr_get xs i = (if 0 \<le> i \<and> i < int (length xs) then Some (xs ! nat i) else None)"

definition arr_set :: "'a list \<Rightarrow> int \<Rightarrow> 'a \<Rightarrow> 'a list option" where
  "arr_set xs i v = (if 0 \<le> i \<and> i < int (length xs) then Some (xs[nat i := v]) else None)"

lemma arr_get_in [simp, c_mem]: "i < length xs \<Longrightarrow> arr_get xs (int i) = Some (xs ! i)"
  by (simp add: arr_get_def)

lemma arr_set_in [simp, c_mem]: "i < length xs \<Longrightarrow> arr_set xs (int i) v = Some (xs[i := v])"
  by (simp add: arr_set_def)

lemma arr_get_SomeD:
  "arr_get xs i = Some v \<Longrightarrow> 0 \<le> i \<and> nat i < length xs \<and> v = xs ! nat i"
  by (auto simp: arr_get_def split: if_splits)

lemma arr_set_SomeD:
  "arr_set xs i v = Some ys \<Longrightarrow> 0 \<le> i \<and> nat i < length xs \<and> ys = xs[nat i := v]"
  by (auto simp: arr_set_def split: if_splits)

lemma arr_get_out: "int (length xs) \<le> i \<Longrightarrow> arr_get xs i = None"
  by (simp add: arr_get_def)

text \<open>\<open>memcpy\<close> of \<open>bs\<close> onto the start of the memory \<open>m\<close>.\<close>

definition blit :: "'a list \<Rightarrow> 'a list \<Rightarrow> 'a list" where
  "blit bs m = bs @ drop (length bs) m"

lemma length_blit [simp, layout]: "length bs \<le> length m \<Longrightarrow> length (blit bs m) = length m"
  by (simp add: blit_def)

lemma blit_full: "length bs = length m \<Longrightarrow> blit bs m = bs"
  by (simp add: blit_def)

lemma blit_append: "length bs = length m \<Longrightarrow> blit bs (m @ k) = bs @ k"
  by (simp add: blit_def)

lemma takeWhile_stop: "\<not> P y \<Longrightarrow> takeWhile P (xs @ y # ys) = takeWhile P xs"
  by (induction xs) simp_all

lemma list_all_update: "list_all P xs \<Longrightarrow> P x \<Longrightarrow> list_all P (xs[i := x])"
  by (auto simp: list_all_iff dest: set_update_subset_insert [THEN subsetD])

section \<open>C strings\<close>

abbreviation NUL :: char where "NUL \<equiv> CHR 0x00"
abbreviation slash :: char where "slash \<equiv> CHR ''/''"

text \<open>
  A path handed to the program is a C string: the model carries its characters without
  the terminator, so none of them is \<open>NUL\<close>.
\<close>

definition cstring :: "string \<Rightarrow> bool" where
  "cstring p \<longleftrightarrow> NUL \<notin> set p"

text \<open>The string a character array holds; \<open>None\<close> if it has no terminator.\<close>

fun cstr :: "char list \<Rightarrow> string option" where
  "cstr [] = None"
| "cstr (c # cs) = (if c = NUL then Some [] else map_option ((#) c) (cstr cs))"

text \<open>\<open>strcmp(buf, s) == 0\<close> for an array and a string: \<open>None\<close> if it reads past the array.\<close>

fun strcmp_eq :: "char list \<Rightarrow> string \<Rightarrow> bool option" where
  "strcmp_eq [] s = None"
| "strcmp_eq (b # bs) [] = Some (b = NUL)"
| "strcmp_eq (b # bs) (c # cs) = (if b = c then strcmp_eq bs cs else Some False)"

text \<open>\<open>strcpy(buf, s)\<close>: \<open>None\<close> if the string and its terminator do not fit.\<close>

definition strcpy :: "char list \<Rightarrow> string \<Rightarrow> char list option" where
  "strcpy buf s = (if length s < length buf then Some (blit (s @ [NUL]) buf) else None)"

text \<open>\<open>strrchr(s, c)\<close> as the index of the last occurrence.\<close>

fun strrchr :: "string \<Rightarrow> char \<Rightarrow> nat option" where
  "strrchr [] c = None"
| "strrchr (x # xs) c =
     (case strrchr xs c of Some k \<Rightarrow> Some (Suc k) | None \<Rightarrow> if x = c then Some 0 else None)"

lemma strrchr_NoneD: "strrchr s c = None \<Longrightarrow> c \<notin> set s"
  by (induction s) (auto split: option.splits if_splits)

lemma strrchr_None_iff: "strrchr s c = None \<longleftrightarrow> c \<notin> set s"
  by (induction s) (auto split: option.splits)

lemma strrchr_SomeD:
  "strrchr s c = Some k \<Longrightarrow> k < length s \<and> s ! k = c \<and> c \<notin> set (drop (Suc k) s)"
proof (induction s arbitrary: k)
  case Nil
  then show ?case by simp
next
  case (Cons x xs)
  then show ?case
    by (cases "strrchr xs c") (auto split: if_splits dest: strrchr_NoneD)
qed

lemma strrchr_append: "c \<notin> set t \<Longrightarrow> strrchr (s @ c # t) c = Some (length s)"
  by (induction s) (auto simp: strrchr_None_iff [THEN iffD2])

lemma strrchr_split:
  assumes "strrchr s c = Some k"
  shows "s = take k s @ c # drop (Suc k) s"
  using strrchr_SomeD [OF assms] by (metis id_take_nth_drop)

lemma strcmp_eq_cstr [c_str]:
  "cstr buf = Some t \<Longrightarrow> cstring s \<Longrightarrow> strcmp_eq buf s = Some (t = s)"
proof (induction buf s arbitrary: t rule: strcmp_eq.induct)
  case (1 s)
  then show ?case by simp
next
  case (2 b bs)
  then show ?case by (auto split: if_splits)
next
  case (3 b bs c cs)
  then show ?case by (auto simp: cstring_def split: if_splits)
qed

lemma cstr_SomeD: "cstr buf = Some t \<Longrightarrow> cstring t \<and> length t < length buf"
proof (induction buf arbitrary: t)
  case Nil
  then show ?case by simp
next
  case (Cons b bs)
  show ?case
  proof (cases "b = NUL")
    case True
    with Cons.prems show ?thesis by (simp add: cstring_def)
  next
    case False
    with Cons.prems obtain u where u: "cstr bs = Some u" and t: "t = b # u"
      by auto
    from Cons.IH [OF u] False show ?thesis by (simp add: t cstring_def)
  qed
qed

lemma cstr_append_NUL: "cstring s \<Longrightarrow> cstr (s @ NUL # r) = Some s"
  by (induction s) (auto simp: cstring_def)

lemma strcpy_SomeD:
  "strcpy buf s = Some b \<Longrightarrow> cstring s \<Longrightarrow> cstr b = Some s \<and> length b = length buf"
  by (auto simp: strcpy_def blit_def cstr_append_NUL split: if_splits)

lemma strcpy_in [simp, c_mem]:
  "length s < length buf \<Longrightarrow> strcpy buf s = Some (s @ NUL # drop (Suc (length s)) buf)"
  by (simp add: strcpy_def blit_def)

lemma strcpy_too_long: "length buf \<le> length s \<Longrightarrow> strcpy buf s = None"
  by (simp add: strcpy_def)

lemma cstring_take [intro]: "cstring s \<Longrightarrow> cstring (take n s)"
  by (auto simp: cstring_def dest: in_set_takeD)

lemma cstring_drop [intro]: "cstring s \<Longrightarrow> cstring (drop n s)"
  by (auto simp: cstring_def dest: in_set_dropD)

section \<open>Bytes\<close>

definition byte_of_char :: "char \<Rightarrow> byte" where
  "byte_of_char c = of_nat (of_char c)"

definition char_of_byte :: "byte \<Rightarrow> char" where
  "char_of_byte b = char_of (unat b)"

lemma unat_byte_less: "unat (b :: byte) < 256"
  using unsigned_less [of b] by simp

lemma char_of_byte_of_char [simp]: "char_of_byte (byte_of_char c) = c"
proof -
  have "(of_char c :: nat) mod 2 ^ 8 = of_char c" by simp
  then show ?thesis
    by (simp add: byte_of_char_def char_of_byte_def unat_of_nat)
qed

lemma byte_of_char_of_byte [simp]: "byte_of_char (char_of_byte b) = b"
  using unat_byte_less [of b] by (simp add: byte_of_char_def char_of_byte_def)

lemma char_byte_comp [simp]:
  "char_of_byte \<circ> byte_of_char = id" "byte_of_char \<circ> char_of_byte = id"
  by (simp_all add: fun_eq_iff)

text \<open>Little-endian representation of a machine integer in \<open>n\<close> bytes.\<close>

fun le_nat :: "nat \<Rightarrow> nat \<Rightarrow> byte list" where
  "le_nat 0 k = []"
| "le_nat (Suc n) k = of_nat (k mod 256) # le_nat n (k div 256)"

fun le_val :: "byte list \<Rightarrow> nat" where
  "le_val [] = 0"
| "le_val (b # bs) = unat b + 256 * le_val bs"

definition le_bytes :: "nat \<Rightarrow> 'a::len word \<Rightarrow> byte list" where
  "le_bytes n w = le_nat n (unat w)"

definition le_word :: "byte list \<Rightarrow> 'a::len word" where
  "le_word bs = of_nat (le_val bs)"

lemma length_le_nat [simp]: "length (le_nat n k) = n"
  by (induction n arbitrary: k) auto

lemma length_le_bytes [simp, layout]: "length (le_bytes n w) = n"
  by (simp add: le_bytes_def)

lemma le_val_le_nat: "le_val (le_nat n k) = k mod 256 ^ n"
proof (induction n arbitrary: k)
  case 0
  then show ?case by simp
next
  case (Suc n)
  have "k mod (256 * 256 ^ n) = 256 * (k div 256 mod 256 ^ n) + k mod 256"
    by (rule mod_mult2_eq)
  then show ?case by (simp add: Suc unat_of_nat)
qed

lemma le_nat_le_val: "length bs = n \<Longrightarrow> le_nat n (le_val bs) = bs"
proof (induction bs arbitrary: n)
  case Nil
  then show ?case by simp
next
  case (Cons b bs)
  then show ?case using unat_byte_less [of b] by (cases n) auto
qed

lemma le_val_less: "le_val bs < 256 ^ length bs"
proof (induction bs)
  case Nil
  then show ?case by simp
next
  case (Cons b bs)
  then show ?case using unat_byte_less [of b] by simp
qed

lemma le_word_le_bytes:
  "8 * n = LENGTH('a) \<Longrightarrow> le_word (le_bytes n w) = (w :: 'a::len word)"
proof -
  assume n: "8 * n = LENGTH('a)"
  have "(256 :: nat) ^ n = 2 ^ LENGTH('a)"
    by (simp add: n [symmetric] power_mult)
  then have "unat w mod 256 ^ n = unat w"
    using unsigned_less [of w] by simp
  then show ?thesis by (simp add: le_word_def le_bytes_def le_val_le_nat)
qed

lemma le_bytes_le_word:
  "8 * n = LENGTH('a) \<Longrightarrow> length bs = n \<Longrightarrow> le_bytes n (le_word bs :: 'a::len word) = bs"
proof -
  assume n: "8 * n = LENGTH('a)" and l: "length bs = n"
  have "(256 :: nat) ^ n = 2 ^ LENGTH('a)"
    by (simp add: n [symmetric] power_mult)
  then have "le_val bs < 2 ^ LENGTH('a)" using le_val_less [of bs] l by simp
  then have "unat (le_word bs :: 'a word) = le_val bs"
    by (simp add: le_word_def unat_of_nat)
  then show ?thesis using l by (simp add: le_bytes_def le_nat_le_val)
qed

text \<open>The member of a structure that starts at byte \<open>off\<close> and has \<open>n\<close> bytes.\<close>

definition member_bytes :: "nat \<Rightarrow> nat \<Rightarrow> byte list \<Rightarrow> byte list" where
  "member_bytes off n bs = take n (drop off bs)"

lemma length_member_bytes [simp, layout]:
  "off + n \<le> length bs \<Longrightarrow> length (member_bytes off n bs) = n"
  by (simp add: member_bytes_def)

lemma member_bytes_here [layout]: "length x = n \<Longrightarrow> member_bytes 0 n (x @ r) = x"
  by (simp add: member_bytes_def)

lemma member_bytes_skip [layout]:
  "length x \<le> off \<Longrightarrow> member_bytes off n (x @ r) = member_bytes (off - length x) n r"
  by (simp add: member_bytes_def)

lemma member_bytes_last [layout]: "length x = n \<Longrightarrow> member_bytes 0 n x = x"
  by (simp add: member_bytes_def)

text \<open>Cutting a byte string at consecutive offsets loses nothing.\<close>

lemma member_bytes_join:
  "member_bytes off n bs @ member_bytes (off + n) m bs = member_bytes off (n + m) bs"
  by (simp only: member_bytes_def take_add drop_drop add.commute [of off n])

text \<open>Cutting a byte string into \<open>n\<close> pieces of \<open>w\<close> bytes.\<close>

fun chunks :: "nat \<Rightarrow> nat \<Rightarrow> byte list \<Rightarrow> byte list list" where
  "chunks w 0 bs = []"
| "chunks w (Suc n) bs = take w bs # chunks w n (drop w bs)"

lemma length_chunks [simp, layout]: "length (chunks w n bs) = n"
  by (induction n arbitrary: bs) auto

lemma chunks_concat:
  "(\<And>x. x \<in> set xs \<Longrightarrow> length (f x) = w) \<Longrightarrow> chunks w (length xs) (concat (map f xs) @ r) = map f xs"
  by (induction xs) auto

lemma concat_chunks: "length bs = w * n \<Longrightarrow> concat (chunks w n bs) = bs"
proof (induction n arbitrary: bs)
  case 0
  then show ?case by simp
next
  case (Suc n)
  then show ?case by simp
qed

lemma chunks_all: "length bs = w * n \<Longrightarrow> c \<in> set (chunks w n bs) \<Longrightarrow> length c = w"
proof (induction n arbitrary: bs)
  case 0
  then show ?case by simp
next
  case (Suc n)
  then have "c = take w bs \<or> c \<in> set (chunks w n (drop w bs))" by simp
  with Suc.prems(1) Suc.IH [of "drop w bs"] show ?case by auto
qed

lemma chunks_nth: "i < n \<Longrightarrow> chunks w n bs ! i = take w (drop (w * i) bs)"
proof (induction n arbitrary: bs i)
  case 0
  then show ?case by simp
next
  case (Suc n)
  then show ?case by (cases i) (simp_all add: add.commute)
qed

lemma length_concat_const [layout]:
  "(\<And>x. x \<in> set xs \<Longrightarrow> length (f x) = w) \<Longrightarrow> length (concat (map f xs)) = w * length xs"
  by (induction xs) auto

end
