(* ===== verification/Platform.thy ===== *)
theory Platform
  imports C_Prelude
begin

text \<open>
  What the program takes from its surroundings. One record, \<open>env\<close>, carries everything
  an operation reads that its own state does not determine: the caller's ids and the clock,
  the outcome of \<open>open\<close>, where the device reports an I/O error, how much it takes of what is
  written, which heap requests are granted, the address the linker gave the array \<open>inodes\<close>, the bytes that lie behind
  \<open>sBlockData\<close> in memory, and the uninitialised stack array of \<open>sfs_init\<close>. The disk file
  is a regular file: a list of bytes, with the POSIX behaviour of \<open>pread\<close> and \<open>pwrite\<close>
  (short read at the end of the file, holes filled with zeros).
\<close>

record env =
  uid_now :: c_int          \<comment> \<open>\<open>getuid()\<close>\<close>
  gid_now :: c_int          \<comment> \<open>\<open>getgid()\<close>\<close>
  time_now :: c_long        \<comment> \<open>\<open>time(NULL)\<close>\<close>
  open_result :: int        \<comment> \<open>what \<open>open(2)\<close> returns for the disk file\<close>
  io_fail :: "int \<Rightarrow> bool"  \<comment> \<open>a read at this offset fails with \<open>EIO\<close>\<close>
  io_takes :: "int \<Rightarrow> byte list \<Rightarrow> nat option"
    \<comment> \<open>how many of the bytes written at this offset are taken; \<open>None\<close> is an error\<close>
  alloc_ok :: "nat \<Rightarrow> bool" \<comment> \<open>a heap request of so many bytes is granted\<close>
  inodes_addr :: c_long     \<comment> \<open>the address of \<open>inodes[0]\<close>\<close>
  after_sBlock :: "byte list"  \<comment> \<open>memory behind \<open>sBlockData\<close>\<close>
  stack_buf :: "byte list"     \<comment> \<open>\<open>buf\<close> of \<open>sfs_init\<close> before it is written\<close>

section \<open>Error numbers and file modes\<close>

definition ENOENT :: int where "ENOENT = 2"
definition EIO :: int where "EIO = 5"
definition EFBIG :: int where "EFBIG = 27"
definition ENAMETOOLONG :: int where "ENAMETOOLONG = 36"
definition PATH_MAX :: nat where "PATH_MAX = 4096"

definition S_IFMT :: "'a::len word" where "S_IFMT = 0xF000"
definition S_IFDIR :: "'a::len word" where "S_IFDIR = 0x4000"
definition S_IFREG :: "'a::len word" where "S_IFREG = 0x8000"

lemmas errno_defs = ENOENT_def EIO_def EFBIG_def ENAMETOOLONG_def

section \<open>A regular file\<close>

definition file_read :: "nat \<Rightarrow> nat \<Rightarrow> byte list \<Rightarrow> byte list" where
  "file_read n off f = take n (drop off f)"

definition file_write :: "nat \<Rightarrow> byte list \<Rightarrow> byte list \<Rightarrow> byte list" where
  "file_write off bs f =
     (if bs = [] then f
      else take off (f @ replicate (off - length f) 0) @ bs @ drop (off + length bs) f)"

lemma length_file_write [layout]:
  "bs \<noteq> [] \<Longrightarrow> length (file_write off bs f) = max (length f) (off + length bs)"
  by (auto simp: file_write_def)

lemma file_read_write_same: "file_read (length bs) off (file_write off bs f) = bs"
  by (cases "bs = []") (simp_all add: file_read_def file_write_def)

text \<open>The part in front of a written range: the old contents, extended with zeros.\<close>

lemma length_file_prefix [simp, layout]: "length (take off (f @ replicate (off - length f) (0::byte))) = off"
  by simp

lemma take_drop_cong: "take (off + n) xs = take (off + n) ys \<Longrightarrow> take n (drop off xs) = take n (drop off ys)"
  by (metis add.commute take_drop)

lemma file_write_prefix:
  obtains P where "length P = off" and "\<And>m. m \<le> off \<Longrightarrow> m \<le> length f \<Longrightarrow> take m P = take m f"
    and "\<And>bs. bs \<noteq> [] \<Longrightarrow> file_write off bs f = P @ bs @ drop (off + length bs) f"
proof
  let ?P = "take off (f @ replicate (off - length f) (0::byte))"
  show "length ?P = off" by simp
  show "take m ?P = take m f" if "m \<le> off" "m \<le> length f" for m
    using that by (simp add: min_def)
  show "file_write off bs f = ?P @ bs @ drop (off + length bs) f" if "bs \<noteq> []" for bs
    using that by (simp add: file_write_def)
qed

lemma take_file_write:
  assumes "m \<le> off" and "m \<le> length f"
  shows "take m (file_write off bs f) = take m f"
proof (cases "bs = []")
  case True
  then show ?thesis by (simp add: file_write_def)
next
  case False
  obtain P where P: "length P = off" "\<And>m. m \<le> off \<Longrightarrow> m \<le> length f \<Longrightarrow> take m P = take m f"
    "\<And>bs. bs \<noteq> [] \<Longrightarrow> file_write off bs f = P @ bs @ drop (off + length bs) f"
    using file_write_prefix [of off f] by metis
  from assms P(1) show ?thesis by (simp add: P(3) [OF False] P(2))
qed

lemma drop_file_write:
  assumes "off + length bs \<le> k"
  shows "bs \<noteq> [] \<Longrightarrow> drop k (file_write off bs f) = drop k f"
proof -
  assume ne: "bs \<noteq> []"
  obtain P where P: "length P = off"
    "\<And>bs. bs \<noteq> [] \<Longrightarrow> file_write off bs f = P @ bs @ drop (off + length bs) f"
    using file_write_prefix [of off f] by metis
  from assms P(1) show ?thesis by (simp add: P(2) [OF ne])
qed

lemma file_read_write_other:
  assumes "off + n \<le> off' \<or> off' + length bs \<le> off" and "off + n \<le> length f"
  shows "file_read n off (file_write off' bs f) = file_read n off f"
proof (cases "off + n \<le> off'")
  case True
  then show ?thesis
    unfolding file_read_def using assms(2) by (intro take_drop_cong take_file_write)
next
  case False
  with assms(1) show ?thesis
    by (cases "bs = []") (simp_all add: file_read_def drop_file_write, simp add: file_write_def)
qed

lemma file_write_write_same:
  "length bs = length cs \<Longrightarrow> file_write off cs (file_write off bs f) = file_write off cs f"
  by (auto simp: file_write_def min_def)

section \<open>The system calls\<close>

text \<open>
  \<open>pread\<close> returns the count (or \<open>-1\<close>) and the bytes transferred; \<open>pwrite\<close> returns
  the count (or \<open>-1\<close>) and the file afterwards. They fail on a descriptor that is not open,
  on a negative offset and where the device does. A write may be partial, for want of space.
\<close>

definition pread :: "env \<Rightarrow> int \<Rightarrow> byte list \<Rightarrow> nat \<Rightarrow> int \<Rightarrow> int \<times> byte list" where
  "pread e fd f n off =
     (if fd < 0 \<or> off < 0 \<or> io_fail e off then (- 1, [])
      else let bs = file_read n (nat off) f in (int (length bs), bs))"

definition pwrite :: "env \<Rightarrow> int \<Rightarrow> byte list \<Rightarrow> byte list \<Rightarrow> int \<Rightarrow> int \<times> byte list" where
  "pwrite e fd f bs off =
     (if fd < 0 \<or> off < 0 then (- 1, f)
      else case io_takes e off bs of
             None \<Rightarrow> (- 1, f)
           | Some k \<Rightarrow> (int (min k (length bs)), file_write (nat off) (take k bs) f))"

text \<open>The device does not fail and takes all it is given, and every heap request is granted.\<close>

definition io_ok :: "env \<Rightarrow> bool" where
  "io_ok e \<longleftrightarrow> (\<forall>off. \<not> io_fail e off) \<and> (\<forall>off bs. io_takes e off bs = Some (length bs))"

definition heap_ok :: "env \<Rightarrow> bool" where
  "heap_ok e \<longleftrightarrow> (\<forall>n. alloc_ok e n)"

lemma pread_ok:
  "io_ok e \<Longrightarrow> 0 \<le> fd \<Longrightarrow>
   pread e fd f n (int off) = (int (length (file_read n off f)), file_read n off f)"
  by (simp add: pread_def io_ok_def Let_def)

lemma pwrite_ok:
  "io_ok e \<Longrightarrow> 0 \<le> fd \<Longrightarrow>
   pwrite e fd f bs (int off) = (int (length bs), file_write off bs f)"
  by (simp add: pwrite_def io_ok_def)

lemma length_pread_le: "pread e fd f n off = (r, bs) \<Longrightarrow> length bs \<le> n"
  by (auto simp: pread_def file_read_def Let_def split: if_splits)

lemma pread_count: "pread e fd f n off = (r, bs) \<Longrightarrow> r = - 1 \<and> bs = [] \<or> r = int (length bs)"
  by (auto simp: pread_def Let_def split: if_splits)

end
