(* ===== verification/Block_Device.thy ===== *)
theory Block_Device
  imports Platform
begin

text \<open>
  \<open>src/src/block.c\<close>: the disk file, its descriptor, and the transfers the rest of the
  program uses. The globals of the file are the record \<open>device\<close>; a function that takes a
  buffer takes its bytes and returns them as they are afterwards. The interface the other
  components rely on is the locale \<open>byte_store\<close>, interpreted here on the disk file.
\<close>

section \<open>The functions of block.c\<close>

definition BLOCK_SIZE :: nat where [simp]: "BLOCK_SIZE = 4096"

record device =
  diskfile :: int        \<comment> \<open>the descriptor, \<open>-1\<close> before \<open>disk_open\<close>\<close>
  fd_open :: bool        \<comment> \<open>whether the system has the descriptor open\<close>
  disk :: "byte list"    \<comment> \<open>the contents of the file behind it\<close>

definition device0 :: "byte list \<Rightarrow> device" where
  "device0 f = \<lparr>diskfile = -1, fd_open = False, disk = f\<rparr>"

text \<open>
  \<open>disk_open\<close> creates the file if it is not there, so a file that was missing is an empty
  one. \<open>None\<close> is the process leaving through \<open>exit(EXIT_FAILURE)\<close>.
\<close>

definition disk_open :: "env \<Rightarrow> device \<Rightarrow> device option" where
  "disk_open e d =
     (if 0 \<le> diskfile d then Some d
      else let d' = d\<lparr>diskfile := open_result e\<rparr> in
        if diskfile d' < 0 then None else Some (d'\<lparr>fd_open := True\<rparr>))"

text \<open>\<open>close\<close> releases the descriptor; the global \<open>diskfile\<close> keeps its number.\<close>

definition disk_close :: "device \<Rightarrow> device" where
  "disk_close d = (if 0 \<le> diskfile d then d\<lparr>fd_open := False\<rparr> else d)"

text \<open>The descriptor as the system sees it: a closed one is as bad as a negative one.\<close>

definition live_fd :: "device \<Rightarrow> int" where
  "live_fd d = (if fd_open d then diskfile d else - 1)"

text \<open>The offset \<open>block_num * BLOCK_SIZE + offset\<close>, computed in \<open>int\<close>.\<close>

definition block_offset :: "int \<Rightarrow> int \<Rightarrow> int option" where
  "block_offset block_num offset = do {
     base \<leftarrow> checked_int (block_num * int BLOCK_SIZE);
     checked_int (base + offset) }"

text \<open>\<open>memset(buf, 0, n)\<close> on the memory at \<open>buf\<close>; \<open>None\<close> if it runs past it.\<close>

definition clear_buf :: "nat \<Rightarrow> byte list \<Rightarrow> byte list option" where
  "clear_buf n buf = (if n \<le> length buf then Some (blit (replicate n 0) buf) else None)"

definition block_read :: "env \<Rightarrow> device \<Rightarrow> int \<Rightarrow> byte list \<Rightarrow> (int \<times> byte list) option" where
  "block_read e d block_num buf = do {
     off \<leftarrow> block_offset block_num 0;
     let (retstat, bs) = pread e (live_fd d) (disk d) BLOCK_SIZE off;
     buf' \<leftarrow> (if length bs \<le> length buf then Some (blit bs buf) else None);
     buf'' \<leftarrow> (if retstat \<le> 0 then clear_buf BLOCK_SIZE buf' else Some buf');
     Some (retstat, buf'') }"

definition sBlock_read :: "env \<Rightarrow> device \<Rightarrow> int \<Rightarrow> byte list \<Rightarrow> nat \<Rightarrow> (int \<times> byte list) option" where
  "sBlock_read e d block_num buf sz = do {
     let (retstat, bs) = pread e (live_fd d) (disk d) sz 0;
     buf' \<leftarrow> (if length bs \<le> length buf then Some (blit bs buf) else None);
     buf'' \<leftarrow> (if retstat \<le> 0 then clear_buf sz buf' else Some buf');
     Some (retstat, buf'') }"

text \<open>
  \<open>inode_read\<close> transfers \<open>sizeof(fileControlBlock)\<close> bytes, given here as \<open>fcb_size\<close>, but
  clears a whole block when nothing was read: the memory at \<open>buf\<close> is what lies from the
  inode on.
\<close>

definition inode_read :: "nat \<Rightarrow> env \<Rightarrow> device \<Rightarrow> int \<Rightarrow> byte list \<Rightarrow> int \<Rightarrow> (int \<times> byte list) option" where
  "inode_read fcb_size e d block_num buf offset = do {
     off \<leftarrow> block_offset block_num offset;
     let (retstat, bs) = pread e (live_fd d) (disk d) fcb_size off;
     buf' \<leftarrow> (if length bs \<le> length buf then Some (blit bs buf) else None);
     buf'' \<leftarrow> (if retstat \<le> 0 then clear_buf BLOCK_SIZE buf' else Some buf');
     Some (retstat, buf'') }"

definition block_write :: "env \<Rightarrow> device \<Rightarrow> int \<Rightarrow> byte list \<Rightarrow> (int \<times> device) option" where
  "block_write e d block_num buf = do {
     off \<leftarrow> block_offset block_num 0;
     (if BLOCK_SIZE \<le> length buf
      then let (retstat, f) = pwrite e (live_fd d) (disk d) (take BLOCK_SIZE buf) off
           in Some (retstat, d\<lparr>disk := f\<rparr>)
      else None) }"

text \<open>The padding both padded writes put under the data first: the character \<open>'0'\<close>.\<close>

definition pad_bytes :: "nat \<Rightarrow> byte list" where
  "pad_bytes n = replicate n 0x30"

definition sBlock_write_padded :: "env \<Rightarrow> device \<Rightarrow> int \<Rightarrow> byte list \<Rightarrow> int \<Rightarrow> (int \<times> device) option" where
  "sBlock_write_padded e d block_num buf sz =
     (if sz \<le> 0 \<or> int (length buf) < sz then None
      else let (retstat, f) = pwrite e (live_fd d) (disk d) (pad_bytes (nat sz)) 0 in
        if 0 \<le> retstat
        then let (retstat', f') = pwrite e (live_fd d) f (take (nat sz) buf) 0
             in Some (retstat', d\<lparr>disk := f'\<rparr>)
        else Some (retstat, d\<lparr>disk := f\<rparr>))"

definition block_write_padded ::
  "env \<Rightarrow> device \<Rightarrow> int \<Rightarrow> byte list \<Rightarrow> int \<Rightarrow> int \<Rightarrow> (int \<times> device) option" where
  "block_write_padded e d block_num buf sz offset = do {
     off \<leftarrow> block_offset block_num offset;
     (if sz < 0 \<or> int BLOCK_SIZE < sz \<or> int (length buf) < sz then None
      else let (retstat, f) = pwrite e (live_fd d) (disk d) (take (nat sz) (pad_bytes BLOCK_SIZE)) off in
        if 0 \<le> retstat
        then let (retstat', f') = pwrite e (live_fd d) f (take (nat sz) buf) off
             in Some (retstat', d\<lparr>disk := f'\<rparr>)
        else Some (retstat, d\<lparr>disk := f\<rparr>)) }"

section \<open>The interface: a store of bytes\<close>

text \<open>
  What a client of the disk relies on: a range reads back what was written to it last, a
  write changes no range apart from its own, and overwriting a range forgets it.
\<close>

definition apart :: "nat \<times> byte list \<Rightarrow> nat \<times> byte list \<Rightarrow> bool" where
  "apart v w \<longleftrightarrow> fst v + length (snd v) \<le> fst w \<or> fst w + length (snd w) \<le> fst v"

text \<open>A sequence of writes, the first of the list first.\<close>

definition write_all :: "(nat \<Rightarrow> byte list \<Rightarrow> 'd \<Rightarrow> 'd) \<Rightarrow> (nat \<times> byte list) list \<Rightarrow> 'd \<Rightarrow> 'd" where
  "write_all wr ws d = fold (\<lambda>(off, bs). wr off bs) ws d"

lemma write_all_Nil [simp]: "write_all wr [] d = d"
  by (simp add: write_all_def)

lemma write_all_Cons: "write_all wr ((off, bs) # ws) d = write_all wr ws (wr off bs d)"
  by (simp add: write_all_def)

lemma write_all_append: "write_all wr (vs @ ws) d = write_all wr ws (write_all wr vs d)"
  by (simp add: write_all_def)

locale byte_store =
  fixes rd :: "nat \<Rightarrow> nat \<Rightarrow> 'd \<Rightarrow> byte list"
    and wr :: "nat \<Rightarrow> byte list \<Rightarrow> 'd \<Rightarrow> 'd"
    and extent :: "'d \<Rightarrow> nat"
  assumes rd_wr_same: "rd (length bs) off (wr off bs d) = bs"
    and rd_wr_other: "off + n \<le> off' \<or> off' + length bs \<le> off \<Longrightarrow> off + n \<le> extent d \<Longrightarrow>
      rd n off (wr off' bs d) = rd n off d"
    and wr_wr_same: "length bs = length cs \<Longrightarrow> wr off cs (wr off bs d) = wr off cs d"
    and extent_wr: "bs \<noteq> [] \<Longrightarrow> extent (wr off bs d) = max (extent d) (off + length bs)"
    and wr_Nil: "wr off [] d = d"
begin

lemma extent_mono: "extent d \<le> extent (wr off bs d)"
  by (cases "bs = []") (simp_all add: extent_wr wr_Nil)

lemma extent_reaches: "bs \<noteq> [] \<Longrightarrow> off + length bs \<le> extent (wr off bs d)"
  by (simp add: extent_wr)

lemma extent_write_all: "extent d \<le> extent (write_all wr ws d)"
proof (induction ws arbitrary: d)
  case Nil
  then show ?case by simp
next
  case (Cons w ws)
  obtain off bs where w: "w = (off, bs)" by (cases w)
  have "extent d \<le> extent (wr off bs d)" by (rule extent_mono)
  also have "\<dots> \<le> extent (write_all wr ws (wr off bs d))" by (rule Cons.IH)
  finally show ?case by (simp add: w write_all_Cons)
qed

text \<open>Frame: a range inside the store that no write of the sequence meets is unchanged.\<close>

lemma rd_write_all_other:
  assumes "\<forall>w \<in> set ws. off + n \<le> fst w \<or> fst w + length (snd w) \<le> off"
    and "off + n \<le> extent d"
  shows "rd n off (write_all wr ws d) = rd n off d"
  using assms
proof (induction ws arbitrary: d)
  case Nil
  then show ?case by simp
next
  case (Cons w ws)
  obtain off' bs where w: "w = (off', bs)" by (cases w)
  from Cons.prems have "off + n \<le> extent (wr off' bs d)"
    by (meson extent_mono le_trans)
  then have "rd n off (write_all wr ws (wr off' bs d)) = rd n off (wr off' bs d)"
    using Cons by simp
  also have "\<dots> = rd n off d"
    using Cons.prems w by (simp add: rd_wr_other)
  finally show ?case by (simp add: w write_all_Cons)
qed

text \<open>Read back: in a sequence of writes that are pairwise apart, each is found again.\<close>

lemma rd_write_all_same:
  assumes "sorted_wrt apart ws" and "(off, bs) \<in> set ws" and "bs \<noteq> []"
  shows "rd (length bs) off (write_all wr ws d) = bs"
  using assms
proof (induction ws arbitrary: d)
  case Nil
  then show ?case by simp
next
  case (Cons w ws)
  obtain off' cs where w: "w = (off', cs)" by (cases w)
  show ?case
  proof (cases "(off, bs) \<in> set ws")
    case True
    then show ?thesis using Cons by (simp add: w write_all_Cons)
  next
    case False
    then have eq: "off' = off" "cs = bs" using Cons.prems(2) w by auto
    have "rd (length bs) off (write_all wr ws (wr off bs d)) = rd (length bs) off (wr off bs d)"
      by (rule rd_write_all_other)
        (use Cons.prems eq w in \<open>auto simp: apart_def extent_reaches\<close>)
    then show ?thesis by (simp add: w eq write_all_Cons rd_wr_same)
  qed
qed

end

interpretation disk_store: byte_store file_read file_write length
proof unfold_locales
  show "file_read (length bs) off (file_write off bs d) = bs" for bs off d
    by (rule file_read_write_same)
  show "file_read n off (file_write off' bs d) = file_read n off d"
    if "off + n \<le> off' \<or> off' + length bs \<le> off" "off + n \<le> length d" for off n off' bs d
    using that by (rule file_read_write_other)
  show "file_write off cs (file_write off bs d) = file_write off cs d"
    if "length bs = length cs" for bs cs off d
    using that by (rule file_write_write_same)
  show "length (file_write off bs d) = max (length d) (off + length bs)" if "bs \<noteq> []" for bs off d
    using that by (rule length_file_write)
  show "file_write off [] d = d" for off d
    by (simp add: file_write_def)
qed

section \<open>What the functions do\<close>

text \<open>A device whose file is open, on a platform that reports no error.\<close>

definition dev_ok :: "env \<Rightarrow> device \<Rightarrow> bool" where
  "dev_ok e d \<longleftrightarrow> io_ok e \<and> 0 \<le> diskfile d \<and> fd_open d"

lemma live_fd_ok: "dev_ok e d \<Longrightarrow> io_ok e \<and> 0 \<le> live_fd d"
  by (simp add: dev_ok_def live_fd_def)

lemma block_offset_nat:
  "int_ok (int b * 4096) \<Longrightarrow> int_ok (int b * 4096 + int o1) \<Longrightarrow>
   block_offset (int b) (int o1) = Some (int (b * 4096 + o1))"
  by (simp add: block_offset_def)

lemma diskfile_block_write_padded:
  "block_write_padded e d n buf sz off = Some (r, d') \<Longrightarrow>
   diskfile d' = diskfile d \<and> fd_open d' = fd_open d"
  by (auto simp: block_write_padded_def Let_def dest!: option_bind_SomeD
      split: if_splits prod.splits)

lemma diskfile_sBlock_write_padded:
  "sBlock_write_padded e d n buf sz = Some (r, d') \<Longrightarrow>
   diskfile d' = diskfile d \<and> fd_open d' = fd_open d"
  by (auto simp: sBlock_write_padded_def Let_def split: if_splits prod.splits)

lemma block_write_padded_run:
  assumes "dev_ok e d" and "block_offset n off = Some (int p)"
    and "length bs \<le> 4096"
  shows "block_write_padded e d n (bs @ rest) (int (length bs)) off
    = Some (int (length bs), d\<lparr>disk := file_write p bs (disk d)\<rparr>)"
  using assms live_fd_ok [OF assms(1)]
  by (simp add: block_write_padded_def pwrite_ok Let_def pad_bytes_def
      file_write_write_same)

lemma sBlock_write_padded_run:
  assumes "dev_ok e d" and "bs \<noteq> []"
  shows "sBlock_write_padded e d n (bs @ rest) (int (length bs))
    = Some (int (length bs), d\<lparr>disk := file_write 0 bs (disk d)\<rparr>)"
  using assms live_fd_ok [OF assms(1)] pwrite_ok [of e "live_fd d" _ _ 0]
  by (simp add: sBlock_write_padded_def Let_def pad_bytes_def
      file_write_write_same)

text \<open>An error of the first write, the padding, leaves the file alone and is reported.\<close>

lemma block_write_padded_failed:
  assumes "block_offset n off = Some p" and "live_fd d < 0 \<or> p < 0 \<or> io_takes e p (pad_bytes (nat sz)) = None"
    and "0 \<le> sz" "sz \<le> 4096" "sz \<le> int (length buf)"
  shows "block_write_padded e d n buf sz off = Some (- 1, d)"
  using assms by (auto simp: block_write_padded_def pwrite_def Let_def pad_bytes_def)

text \<open>An error of the second leaves the padding in the place of what was there.\<close>

lemma block_write_padded_torn:
  assumes "block_offset n off = Some (int p)" and "0 \<le> live_fd d" and "length bs \<le> 4096"
    and "io_takes e (int p) (pad_bytes (length bs)) = Some (length bs)" and "io_takes e (int p) bs = None"
  shows "block_write_padded e d n (bs @ rest) (int (length bs)) off
    = Some (- 1, d\<lparr>disk := file_write p (pad_bytes (length bs)) (disk d)\<rparr>)"
  using assms by (simp add: block_write_padded_def pwrite_def Let_def pad_bytes_def)

lemma inode_read_full:
  assumes "dev_ok e d" and "block_offset n off = Some (int p)"
    and "p + w \<le> length (disk d)" and "0 < w" and "w \<le> length buf"
  shows "inode_read w e d n buf off = Some (int w, blit (file_read w p (disk d)) buf)"
proof -
  have "length (file_read w p (disk d)) = w" using assms(3) by (simp add: file_read_def)
  with assms live_fd_ok [OF assms(1)] show ?thesis
    by (simp add: inode_read_def pread_ok Let_def)
qed

lemma inode_read_eof:
  assumes "dev_ok e d" and "block_offset n off = Some (int p)"
    and "length (disk d) \<le> p" and "4096 \<le> length buf"
  shows "inode_read w e d n buf off = Some (0, blit (replicate 4096 0) buf)"
proof -
  have "file_read w p (disk d) = []" using assms(3) by (simp add: file_read_def)
  with assms live_fd_ok [OF assms(1)] show ?thesis
    by (simp add: inode_read_def pread_ok Let_def clear_buf_def blit_def)
qed

lemma sBlock_read_full:
  assumes "dev_ok e d" and "sz \<le> length (disk d)" and "0 < sz" and "length buf = sz"
  shows "sBlock_read e d n buf sz = Some (int sz, take sz (disk d))"
proof -
  have "length (file_read sz 0 (disk d)) = sz" using assms(2) by (simp add: file_read_def)
  with assms live_fd_ok [OF assms(1)] pread_ok [of e "live_fd d" _ _ 0] show ?thesis
    by (simp add: sBlock_read_def Let_def blit_full) (simp add: file_read_def)
qed

lemma sBlock_read_empty:
  assumes "dev_ok e d" and "disk d = []" and "length buf = sz"
  shows "sBlock_read e d n buf sz = Some (0, replicate sz 0)"
  using assms live_fd_ok [OF assms(1)] pread_ok [of e "live_fd d" _ _ 0]
  by (simp add: sBlock_read_def Let_def file_read_def clear_buf_def blit_def)

end
