(* ===== verification/Object_Rep.thy ===== *)
theory Object_Rep
  imports C_Prelude
begin

text \<open>
  The contract between a C structure and the bytes it occupies: the program moves whole
  structures to and from the disk file by their object representation, so what it relies on
  is that a structure of the declared type fills exactly \<open>sizeof\<close> bytes and is recovered
  from them. The two structures of \<open>src/src/knoten.h\<close> are shown to satisfy the contract in
  the theory \<open>Knoten\<close>; the lemmas here are proved once from the contract.
\<close>

text \<open>An array of structures in memory, and the array that memory holds.\<close>

definition array_bytes :: "('a \<Rightarrow> byte list) \<Rightarrow> 'a list \<Rightarrow> byte list" where
  "array_bytes enc xs = concat (map enc xs)"

definition array_of_bytes :: "(byte list \<Rightarrow> 'a) \<Rightarrow> nat \<Rightarrow> nat \<Rightarrow> byte list \<Rightarrow> 'a list" where
  "array_of_bytes dec w n bs = map dec (chunks w n bs)"

lemma length_array_of_bytes [simp, layout]: "length (array_of_bytes dec w n bs) = n"
  by (simp add: array_of_bytes_def)

lemma array_bytes_append: "array_bytes enc (xs @ ys) = array_bytes enc xs @ array_bytes enc ys"
  by (simp add: array_bytes_def)

lemma array_bytes_Cons: "array_bytes enc (x # ys) = enc x @ array_bytes enc ys"
  by (simp add: array_bytes_def)

locale object_rep =
  fixes enc :: "'a \<Rightarrow> byte list"
    and dec :: "byte list \<Rightarrow> 'a"
    and valid :: "'a \<Rightarrow> bool"
    and width :: nat
  assumes length_enc: "valid x \<Longrightarrow> length (enc x) = width"
    and dec_enc: "valid x \<Longrightarrow> dec (enc x) = x"
    and enc_dec: "length bs = width \<Longrightarrow> enc (dec bs) = bs"
    and valid_dec: "length bs = width \<Longrightarrow> valid (dec bs)"
begin

lemma enc_inject: "valid x \<Longrightarrow> valid y \<Longrightarrow> enc x = enc y \<longleftrightarrow> x = y"
  by (metis dec_enc)

lemma dec_blit_full: "valid x \<Longrightarrow> valid y \<Longrightarrow> dec (blit (enc x) (enc y)) = x"
  by (simp add: blit_full length_enc dec_enc)

text \<open>A partial overwrite of a structure leaves a structure.\<close>

lemma valid_dec_blit: "valid x \<Longrightarrow> length bs \<le> width \<Longrightarrow> valid (dec (blit bs (enc x)))"
  by (rule valid_dec) (simp add: length_enc)

lemma length_array_bytes: "\<forall>x \<in> set xs. valid x \<Longrightarrow> length (array_bytes enc xs) = width * length xs"
  unfolding array_bytes_def by (rule length_concat_const) (simp add: length_enc)

lemma array_of_array_bytes:
  assumes "\<forall>x \<in> set xs. valid x"
  shows "array_of_bytes dec width (length xs) (array_bytes enc xs) = xs"
proof -
  have "chunks width (length xs) (concat (map enc xs) @ []) = map enc xs"
    by (rule chunks_concat) (simp add: assms length_enc)
  then have "array_of_bytes dec width (length xs) (array_bytes enc xs) = map (dec \<circ> enc) xs"
    by (simp add: array_of_bytes_def array_bytes_def)
  also have "\<dots> = xs" using assms by (simp add: dec_enc map_idI)
  finally show ?thesis .
qed

lemma valid_array_of_bytes:
  "length bs = width * n \<Longrightarrow> x \<in> set (array_of_bytes dec width n bs) \<Longrightarrow> valid x"
  by (auto simp: array_of_bytes_def intro: valid_dec dest: chunks_all)

lemma array_of_bytes_Cons:
  "length c = width \<Longrightarrow> array_of_bytes dec width (Suc n) (c @ bs) = dec c # array_of_bytes dec width n bs"
  by (simp add: array_of_bytes_def)

text \<open>Loading a full structure at the head of an array replaces exactly that structure.\<close>

lemma array_of_blit_head:
  assumes "\<forall>z \<in> set (y # ys). valid z" and "length bs = width"
  shows "array_of_bytes dec width (Suc (length ys)) (blit bs (array_bytes enc (y # ys))) = dec bs # ys"
proof -
  have "blit bs (array_bytes enc (y # ys)) = bs @ array_bytes enc ys"
    using assms by (simp add: array_bytes_Cons blit_append length_enc)
  with assms show ?thesis
    by (simp add: array_of_bytes_Cons array_of_array_bytes)
qed

end

end
