(* ===== verification/Knoten.thy ===== *)
theory Knoten
  imports Object_Rep
begin

text \<open>
  \<open>src/src/knoten.h\<close>: the superblock, the file control block (inode) and pointers to
  inodes, with the bytes each occupies on x86-64. The padding the compiler inserts is a
  field, so a structure and its bytes determine each other.
\<close>

section \<open>Constants and pointers\<close>

definition MAX_BLOCKS :: nat where [simp]: "MAX_BLOCKS = 5859"
definition NAME_SIZE :: nat where [simp]: "NAME_SIZE = 256"
definition MAX_FILES_IN_DIR :: nat where [simp]: "MAX_FILES_IN_DIR = 30"
definition NUM_INODES :: nat where [simp]: "NUM_INODES = 100"   \<comment> \<open>\<open>inodes[100]\<close> in sfs.c\<close>

text \<open>
  A \<open>fileControlBlock *\<close>: null, the address of an element of \<open>inodes\<close>, or any other
  64-bit value, which a disk image can bring in and which may not be dereferenced.
\<close>

datatype fcb_ptr = Null | Inode nat | Wild c_long

instantiation fcb_ptr :: zero
begin

definition zero_fcb_ptr :: fcb_ptr where "0 = Null"

instance ..

end

definition sizeof_fcb :: nat where [simp]: "sizeof_fcb = 840"
definition sizeof_superblock :: nat where [simp]: "sizeof_superblock = 11744"

text \<open>The value of a pointer when \<open>inodes\<close> is linked at the address \<open>a\<close>, and back.\<close>

fun ptr_value :: "c_long \<Rightarrow> fcb_ptr \<Rightarrow> c_long" where
  "ptr_value a Null = 0"
| "ptr_value a (Inode k) = a + 840 * of_nat k"
| "ptr_value a (Wild w) = w"

definition ptr_of_value :: "c_long \<Rightarrow> c_long \<Rightarrow> fcb_ptr" where
  "ptr_of_value a w =
     (if w = 0 then Null
      else let d = unat (w - a) in
        if d mod 840 = 0 \<and> d div 840 < NUM_INODES then Inode (d div 840) else Wild w)"

text \<open>The array fits into the address space above \<open>a\<close>, which is not the null address.\<close>

definition addr_ok :: "c_long \<Rightarrow> bool" where
  "addr_ok a \<longleftrightarrow> a \<noteq> 0 \<and> unat a + 840 * NUM_INODES \<le> 2 ^ 64"

text \<open>A pointer in the form \<open>ptr_of_value\<close> gives it.\<close>

fun ptr_canonical :: "c_long \<Rightarrow> fcb_ptr \<Rightarrow> bool" where
  "ptr_canonical a Null = True"
| "ptr_canonical a (Inode k) = (k < NUM_INODES)"
| "ptr_canonical a (Wild w) = (ptr_of_value a w = Wild w)"

lemma unat_inode_offset: "k < 100 \<Longrightarrow> unat (840 * of_nat k :: c_long) = 840 * k"
  by (simp add: unat_word_ariths unat_of_nat)

lemma mult_div_exact: "(n :: nat) mod m = 0 \<Longrightarrow> m * (n div m) = n"
  using mult_div_mod_eq [of m n] by linarith

lemma inode_offset_exact:
  assumes "unat (d :: c_long) mod 840 = 0"
  shows "840 * of_nat (unat d div 840) = d"
proof -
  have "of_nat (840 * (unat d div 840)) = (of_nat (unat d) :: c_long)"
    by (simp only: mult_div_exact [OF assms])
  then have "of_nat 840 * of_nat (unat d div 840) = (of_nat (unat d) :: c_long)"
    by (simp only: of_nat_mult)
  then show ?thesis by simp
qed

lemma ptr_of_value_cases:
  obtains "w = 0" "ptr_of_value a w = Null"
  | "ptr_of_value a w = Inode (unat (w - a) div 840)" "unat (w - a) mod 840 = 0"
      "unat (w - a) div 840 < NUM_INODES"
  | "ptr_of_value a w = Wild w"
  unfolding ptr_of_value_def Let_def by presburger

lemma ptr_value_of_value: "ptr_value a (ptr_of_value a w) = w"
proof (rule ptr_of_value_cases [of w a])
  assume "ptr_of_value a w = Inode (unat (w - a) div 840)" and "unat (w - a) mod 840 = 0"
  then have "ptr_value a (ptr_of_value a w) = a + (w - a)"
    by (simp only: ptr_value.simps inode_offset_exact)
  then show ?thesis by (simp only: add_diff_cancel_left' add_diff_eq)
qed simp_all

lemma inode_address_nonzero:
  assumes "addr_ok a" and "k < 100"
  shows "a + 840 * of_nat k \<noteq> 0"
proof -
  have "unat a + 840 * k < 2 ^ 64" and "0 < unat a"
    using assms by (simp_all add: addr_ok_def unat_gt_0)
  then have "unat (a + 840 * of_nat k) \<noteq> 0"
    using unat_inode_offset [OF assms(2)] by (simp add: unat_word_ariths(1))
  then show ?thesis by auto
qed

lemma ptr_of_value_value:
  assumes "addr_ok a" and "ptr_canonical a p"
  shows "ptr_of_value a (ptr_value a p) = p"
proof (cases p)
  case Null
  then show ?thesis by (simp add: ptr_of_value_def)
next
  case (Inode k)
  with assms(2) have k: "k < 100" by simp
  from inode_address_nonzero [OF assms(1) k] unat_inode_offset [OF k] show ?thesis
    using Inode k by (simp add: ptr_of_value_def Let_def)
next
  case (Wild w)
  with assms(2) show ?thesis by simp
qed

lemma ptr_canonical_of_value: "ptr_canonical a (ptr_of_value a w)"
  by (rule ptr_of_value_cases [of w a]) simp_all

section \<open>The structures\<close>

record superblock =
  magicNum :: c_int
  numInodes :: c_int
  numDataBlocks :: c_int
  inodeStartIndex :: c_int
  datablockStartIndex :: c_int
  numInodesPerBlock :: c_int
  ibmap :: "byte list"
  dbmap :: "byte list"
  sb_padding :: "byte list"

record fcb =
  fileName :: "char list"
  fileSize :: c_long
  numBlocks :: c_short
  inumber :: c_short
  parent_inumber :: c_short
  parentDir :: "char list"
  fcb_mode :: c_short
  fcb_uid :: c_short
  fcb_block :: "byte list"
  fcb_padding :: "byte list"
  fcb_time :: c_long
  dirContents :: "fcb_ptr list"

text \<open>The declared sizes of the arrays.\<close>

definition superblock_typed :: "superblock \<Rightarrow> bool" where
  "superblock_typed sb \<longleftrightarrow>
     length (ibmap sb) = MAX_BLOCKS \<and> length (dbmap sb) = MAX_BLOCKS \<and> length (sb_padding sb) = 2"

definition fcb_sized :: "fcb \<Rightarrow> bool" where
  "fcb_sized f \<longleftrightarrow>
     length (fileName f) = NAME_SIZE \<and> length (parentDir f) = NAME_SIZE \<and>
     length (fcb_block f) = 60 \<and> length (fcb_padding f) = 2 \<and>
     length (dirContents f) = MAX_FILES_IN_DIR"

definition fcb_typed :: "c_long \<Rightarrow> fcb \<Rightarrow> bool" where
  "fcb_typed a f \<longleftrightarrow> fcb_sized f \<and> list_all (ptr_canonical a) (dirContents f)"

text \<open>Static storage starts as zeros.\<close>

definition superblock0 :: superblock where
  "superblock0 = \<lparr>magicNum = 0, numInodes = 0, numDataBlocks = 0, inodeStartIndex = 0,
     datablockStartIndex = 0, numInodesPerBlock = 0,
     ibmap = replicate MAX_BLOCKS 0, dbmap = replicate MAX_BLOCKS 0, sb_padding = replicate 2 0\<rparr>"

definition fcb0 :: fcb where
  "fcb0 = \<lparr>fileName = replicate NAME_SIZE NUL, fileSize = 0, numBlocks = 0, inumber = 0,
     parent_inumber = 0, parentDir = replicate NAME_SIZE NUL, fcb_mode = 0, fcb_uid = 0,
     fcb_block = replicate 60 0, fcb_padding = replicate 2 0, fcb_time = 0,
     dirContents = replicate MAX_FILES_IN_DIR Null\<rparr>"

lemma superblock0_typed: "superblock_typed superblock0"
  by (simp add: superblock_typed_def superblock0_def)

lemma fcb0_typed: "fcb_typed a fcb0"
  by (simp add: fcb_typed_def fcb_sized_def fcb0_def list_all_iff)

section \<open>Object representations\<close>

definition superblock_bytes :: "superblock \<Rightarrow> byte list" where
  "superblock_bytes sb =
     le_bytes 4 (magicNum sb) @ le_bytes 4 (numInodes sb) @ le_bytes 4 (numDataBlocks sb) @
     le_bytes 4 (inodeStartIndex sb) @ le_bytes 4 (datablockStartIndex sb) @
     le_bytes 4 (numInodesPerBlock sb) @ ibmap sb @ dbmap sb @ sb_padding sb"

definition superblock_of_bytes :: "byte list \<Rightarrow> superblock" where
  "superblock_of_bytes bs = \<lparr>
     magicNum = le_word (member_bytes 0 4 bs),
     numInodes = le_word (member_bytes 4 4 bs),
     numDataBlocks = le_word (member_bytes 8 4 bs),
     inodeStartIndex = le_word (member_bytes 12 4 bs),
     datablockStartIndex = le_word (member_bytes 16 4 bs),
     numInodesPerBlock = le_word (member_bytes 20 4 bs),
     ibmap = member_bytes 24 5859 bs,
     dbmap = member_bytes 5883 5859 bs,
     sb_padding = member_bytes 11742 2 bs\<rparr>"

definition fcb_bytes :: "c_long \<Rightarrow> fcb \<Rightarrow> byte list" where
  "fcb_bytes a f =
     map byte_of_char (fileName f) @ le_bytes 8 (fileSize f) @ le_bytes 2 (numBlocks f) @
     le_bytes 2 (inumber f) @ le_bytes 2 (parent_inumber f) @
     map byte_of_char (parentDir f) @ le_bytes 2 (fcb_mode f) @ le_bytes 2 (fcb_uid f) @
     fcb_block f @ fcb_padding f @ le_bytes 8 (fcb_time f) @
     concat (map (\<lambda>p. le_bytes 8 (ptr_value a p)) (dirContents f))"

definition fcb_of_bytes :: "c_long \<Rightarrow> byte list \<Rightarrow> fcb" where
  "fcb_of_bytes a bs = \<lparr>
     fileName = map char_of_byte (member_bytes 0 256 bs),
     fileSize = le_word (member_bytes 256 8 bs),
     numBlocks = le_word (member_bytes 264 2 bs),
     inumber = le_word (member_bytes 266 2 bs),
     parent_inumber = le_word (member_bytes 268 2 bs),
     parentDir = map char_of_byte (member_bytes 270 256 bs),
     fcb_mode = le_word (member_bytes 526 2 bs),
     fcb_uid = le_word (member_bytes 528 2 bs),
     fcb_block = member_bytes 530 60 bs,
     fcb_padding = member_bytes 590 2 bs,
     fcb_time = le_word (member_bytes 592 8 bs),
     dirContents = map (\<lambda>c. ptr_of_value a (le_word c)) (chunks 8 30 (member_bytes 600 240 bs))\<rparr>"

lemma length_superblock_bytes: "superblock_typed sb \<Longrightarrow> length (superblock_bytes sb) = 11744"
  by (simp add: superblock_bytes_def superblock_typed_def)

lemma superblock_of_superblock_bytes:
  assumes "superblock_typed sb"
  shows "superblock_of_bytes (superblock_bytes sb) = sb"
  using assms
  by (simp add: superblock_of_bytes_def superblock_bytes_def superblock_typed_def layout
      le_word_le_bytes)

lemma superblock_bytes_of_bytes:
  assumes "length bs = 11744"
  shows "superblock_bytes (superblock_of_bytes bs) = bs"
proof -
  have "superblock_bytes (superblock_of_bytes bs)
      = member_bytes 0 4 bs @ member_bytes 4 4 bs @ member_bytes 8 4 bs @ member_bytes 12 4 bs @
        member_bytes 16 4 bs @ member_bytes 20 4 bs @ member_bytes 24 5859 bs @
        member_bytes 5883 5859 bs @ member_bytes 11742 2 bs"
    using assms by (simp add: superblock_bytes_def superblock_of_bytes_def le_bytes_le_word)
  also have "\<dots> = member_bytes 0 11744 bs"
    using member_bytes_join [of 11742 2 bs 0] member_bytes_join [of 5883 5859 bs 2]
      member_bytes_join [of 24 5859 bs 5861] member_bytes_join [of 20 4 bs 11720]
      member_bytes_join [of 16 4 bs 11724] member_bytes_join [of 12 4 bs 11728]
      member_bytes_join [of 8 4 bs 11732] member_bytes_join [of 4 4 bs 11736]
      member_bytes_join [of 0 4 bs 11740] by simp
  also have "\<dots> = bs" using assms by (simp add: member_bytes_last)
  finally show ?thesis .
qed

lemma superblock_typed_of_bytes: "length bs = 11744 \<Longrightarrow> superblock_typed (superblock_of_bytes bs)"
  by (simp add: superblock_typed_def superblock_of_bytes_def)

lemma length_dir_bytes:
  "length (concat (map (\<lambda>p. le_bytes 8 (ptr_value a p)) ps)) = 8 * length ps"
  by (rule length_concat_const) simp

lemma length_fcb_bytes: "fcb_typed a f \<Longrightarrow> length (fcb_bytes a f) = 840"
  by (simp add: fcb_bytes_def fcb_typed_def fcb_sized_def length_dir_bytes)

text \<open>
  The bytes of a structure read with the array at another address \<open>a'\<close>: every member is
  the same but the pointers, whose values still point where the array was.
\<close>

lemma dir_of_dir_bytes:
  assumes "length ps = n"
  shows "map (\<lambda>c. ptr_of_value a' (le_word c))
    (chunks 8 n (concat (map (\<lambda>p. le_bytes 8 (ptr_value a p)) ps))) = map (\<lambda>p. ptr_of_value a' (ptr_value a p)) ps"
proof -
  have "chunks 8 (length ps) (concat (map (\<lambda>p. le_bytes 8 (ptr_value a p)) ps) @ [])
      = map (\<lambda>p. le_bytes 8 (ptr_value a p)) ps"
    by (rule chunks_concat) simp
  then show ?thesis using assms by (simp add: le_word_le_bytes)
qed

lemma fcb_of_fcb_bytes_at:
  assumes "fcb_sized f"
  shows "fcb_of_bytes a' (fcb_bytes a f) =
    f\<lparr>dirContents := map (\<lambda>p. ptr_of_value a' (ptr_value a p)) (dirContents f)\<rparr>"
proof -
  let ?d = "concat (map (\<lambda>p. le_bytes 8 (ptr_value a p)) (dirContents f))"
  have "length ?d = 240" using assms by (simp add: fcb_sized_def length_dir_bytes)
  moreover have "map (\<lambda>c. ptr_of_value a' (le_word c)) (chunks 8 30 ?d)
      = map (\<lambda>p. ptr_of_value a' (ptr_value a p)) (dirContents f)"
    using assms by (intro dir_of_dir_bytes) (simp add: fcb_sized_def)
  ultimately show ?thesis
    using assms by (simp add: fcb_of_bytes_def fcb_bytes_def fcb_sized_def layout le_word_le_bytes)
qed

lemma fcb_of_fcb_bytes:
  assumes "addr_ok a" and "fcb_typed a f"
  shows "fcb_of_bytes a (fcb_bytes a f) = f"
proof -
  have "map (\<lambda>p. ptr_of_value a (ptr_value a p)) (dirContents f) = dirContents f"
    using assms by (auto simp: fcb_typed_def list_all_iff ptr_of_value_value intro!: map_idI)
  then show ?thesis using fcb_of_fcb_bytes_at [of f a a] assms(2) by (simp add: fcb_typed_def)
qed

lemma dir_bytes_of_dir:
  assumes "length bs = 8 * n"
  shows "concat (map (\<lambda>p. le_bytes 8 (ptr_value a p))
    (map (\<lambda>c. ptr_of_value a (le_word c)) (chunks 8 n bs))) = bs"
proof -
  have "map (\<lambda>p. le_bytes 8 (ptr_value a p)) (map (\<lambda>c. ptr_of_value a (le_word c)) (chunks 8 n bs))
      = chunks 8 n bs"
    using chunks_all [OF assms]
    by (auto simp: ptr_value_of_value le_bytes_le_word intro!: map_idI)
  then show ?thesis using concat_chunks [OF assms] by simp
qed

lemma fcb_bytes_of_bytes:
  assumes "length bs = 840"
  shows "fcb_bytes a (fcb_of_bytes a bs) = bs"
proof -
  have "length (member_bytes 600 240 bs) = 8 * 30" using assms by simp
  from dir_bytes_of_dir [OF this, of a]
  have "fcb_bytes a (fcb_of_bytes a bs)
      = member_bytes 0 256 bs @ member_bytes 256 8 bs @ member_bytes 264 2 bs @
        member_bytes 266 2 bs @ member_bytes 268 2 bs @ member_bytes 270 256 bs @
        member_bytes 526 2 bs @ member_bytes 528 2 bs @ member_bytes 530 60 bs @
        member_bytes 590 2 bs @ member_bytes 592 8 bs @ member_bytes 600 240 bs"
    using assms by (simp add: fcb_bytes_def fcb_of_bytes_def le_bytes_le_word)
  also have "\<dots> = member_bytes 0 840 bs"
    using member_bytes_join [of 592 8 bs 240] member_bytes_join [of 590 2 bs 248]
      member_bytes_join [of 530 60 bs 250] member_bytes_join [of 528 2 bs 310]
      member_bytes_join [of 526 2 bs 312] member_bytes_join [of 270 256 bs 314]
      member_bytes_join [of 268 2 bs 570] member_bytes_join [of 266 2 bs 572]
      member_bytes_join [of 264 2 bs 574] member_bytes_join [of 256 8 bs 576]
      member_bytes_join [of 0 256 bs 584] by simp
  also have "\<dots> = bs" using assms by (simp add: member_bytes_last)
  finally show ?thesis .
qed

lemma fcb_typed_of_bytes: "length bs = 840 \<Longrightarrow> fcb_typed a (fcb_of_bytes a bs)"
  by (simp add: fcb_typed_def fcb_sized_def fcb_of_bytes_def list_all_iff ptr_canonical_of_value)

section \<open>Both structures meet the contract\<close>

interpretation superblock_rep: object_rep superblock_bytes superblock_of_bytes superblock_typed 11744
proof unfold_locales
  show "length (superblock_bytes x) = 11744" if "superblock_typed x" for x
    using that by (rule length_superblock_bytes)
  show "superblock_of_bytes (superblock_bytes x) = x" if "superblock_typed x" for x
    using that by (rule superblock_of_superblock_bytes)
  show "superblock_bytes (superblock_of_bytes bs) = bs" if "length bs = 11744" for bs
    using that by (rule superblock_bytes_of_bytes)
  show "superblock_typed (superblock_of_bytes bs)" if "length bs = 11744" for bs
    using that by (rule superblock_typed_of_bytes)
qed

text \<open>
  The representation of an inode depends on where \<open>inodes\<close> lies; every admissible address
  gives an instance.
\<close>

lemma fcb_object_rep:
  "addr_ok a \<Longrightarrow> object_rep (fcb_bytes a) (fcb_of_bytes a) (fcb_typed a) 840"
  by unfold_locales
    (simp_all add: length_fcb_bytes fcb_of_fcb_bytes fcb_bytes_of_bytes fcb_typed_of_bytes)

end
