(* ===== verification/Fs_State.thy ===== *)
theory Fs_State
  imports Block_Device Knoten
begin

text \<open>
  The state of the program between two callbacks: its globals and the disk file. Pointers
  to inodes are followed with \<open>deref\<close> and \<open>store\<close>, so two pointers to one inode alias as
  they do in the program. The predicate \<open>fs_inv\<close> is what the callbacks maintain.
\<close>

section \<open>The globals\<close>

record fs =
  dev :: device
  sBlock :: superblock       \<comment> \<open>\<open>sBlockData\<close>, which \<open>sBlock\<close> points to\<close>
  inodes :: "fcb list"
  diskSize :: int
  errno :: int

definition fs0 :: "byte list \<Rightarrow> fs" where
  "fs0 f = \<lparr>dev = device0 f, sBlock = superblock0, inodes = replicate NUM_INODES fcb0,
     diskSize = 0, errno = 0\<rparr>"

text \<open>The counts of the superblock as \<open>int\<close> values.\<close>

abbreviation n_inodes :: "fs \<Rightarrow> int" where "n_inodes s \<equiv> sint (numInodes (sBlock s))"
abbreviation start_index :: "fs \<Rightarrow> int" where "start_index s \<equiv> sint (inodeStartIndex (sBlock s))"
abbreviation per_block :: "fs \<Rightarrow> int" where "per_block s \<equiv> sint (numInodesPerBlock (sBlock s))"

section \<open>Pointers into the inode array\<close>

fun deref :: "fs \<Rightarrow> fcb_ptr \<Rightarrow> fcb option" where
  "deref s Null = None"
| "deref s (Inode k) = arr_get (inodes s) (int k)"
| "deref s (Wild w) = None"

fun store :: "fs \<Rightarrow> fcb_ptr \<Rightarrow> fcb \<Rightarrow> fs option" where
  "store s Null f = None"
| "store s (Inode k) f = map_option (\<lambda>fcbs. s\<lparr>inodes := fcbs\<rparr>) (arr_set (inodes s) (int k) f)"
| "store s (Wild w) f = None"

lemma deref_Some_iff:
  "deref s p = Some f \<longleftrightarrow> (\<exists>k. p = Inode k \<and> k < length (inodes s) \<and> f = inodes s ! k)"
  by (cases p) (auto simp: arr_get_def)

lemma store_Some_iff:
  "store s p f = Some s' \<longleftrightarrow>
     (\<exists>k. p = Inode k \<and> k < length (inodes s) \<and> s' = s\<lparr>inodes := (inodes s)[k := f]\<rparr>)"
  by (cases p) (auto simp: arr_set_def)

lemma deref_Inode [simp, c_mem]: "k < length (inodes s) \<Longrightarrow> deref s (Inode k) = Some (inodes s ! k)"
  by simp

lemma store_Inode [simp, c_mem]:
  "k < length (inodes s) \<Longrightarrow> store s (Inode k) f = Some (s\<lparr>inodes := (inodes s)[k := f]\<rparr>)"
  by simp

declare deref.simps(2) [simp del] store.simps(2) [simp del]

text \<open>The address \<open>&inodes[i]\<close>: forming one outside the array is undefined.\<close>

definition inode_address :: "fs \<Rightarrow> int \<Rightarrow> fcb_ptr option" where
  "inode_address s i =
     (if 0 \<le> i \<and> i < int (length (inodes s)) then Some (Inode (nat i)) else None)"

lemma inode_address_in [simp, c_mem]:
  "k < length (inodes s) \<Longrightarrow> inode_address s (int k) = Some (Inode k)"
  by (simp add: inode_address_def)

lemma inode_address_zero [simp]: "inodes s \<noteq> [] \<Longrightarrow> inode_address s 0 = Some (Inode 0)"
  by (simp add: inode_address_def)

section \<open>The invariant\<close>

text \<open>The last directory slot is used only when all are.\<close>

definition dir_packed :: "fcb_ptr list \<Rightarrow> bool" where
  "dir_packed dc \<longleftrightarrow> dc ! 29 \<noteq> Null \<longrightarrow> (\<forall>j<29. dc ! j \<noteq> Null)"

definition ptr_ok :: "fcb_ptr \<Rightarrow> bool" where
  "ptr_ok p \<longleftrightarrow> p = Null \<or> (\<exists>k < NUM_INODES. p = Inode k)"

definition names_ok :: "fcb \<Rightarrow> bool" where
  "names_ok f \<longleftrightarrow> cstr (fileName f) \<noteq> None \<and> cstr (parentDir f) \<noteq> None"

definition dir_ok :: "fcb \<Rightarrow> bool" where
  "dir_ok f \<longleftrightarrow> list_all ptr_ok (dirContents f) \<and> dir_packed (dirContents f)"

definition number_ok :: "c_short \<Rightarrow> bool" where
  "number_ok w \<longleftrightarrow> 0 \<le> sint w \<and> sint w < int NUM_INODES"

definition fcb_ok :: "fcb \<Rightarrow> bool" where
  "fcb_ok f \<longleftrightarrow> fcb_sized f \<and> names_ok f \<and> dir_ok f \<and> number_ok (inumber f)"

definition geometry_ok :: "superblock \<Rightarrow> bool" where
  "geometry_ok sb \<longleftrightarrow> superblock_typed sb \<and> 0 \<le> sint (numInodes sb) \<and>
     sint (numInodes sb) \<le> int NUM_INODES \<and> inodeStartIndex sb = 3 \<and> numInodesPerBlock sb = 4"

definition fs_inv :: "fs \<Rightarrow> bool" where
  "fs_inv s \<longleftrightarrow> geometry_ok (sBlock s) \<and> length (inodes s) = NUM_INODES \<and>
     list_all fcb_ok (inodes s) \<and> list_all (\<lambda>f. number_ok (parent_inumber f)) (tl (inodes s)) \<and>
     cstr (fileName (inodes s ! 0)) = Some ''/''"

text \<open>The platform the callbacks run on: no device error, room behind the superblock.\<close>

definition env_ok :: "env \<Rightarrow> bool" where
  "env_ok e \<longleftrightarrow> io_ok e \<and> addr_ok (inodes_addr e) \<and> 544 \<le> length (after_sBlock e)"

lemma fs_inv_length: "fs_inv s \<Longrightarrow> length (inodes s) = 100"
  by (simp add: fs_inv_def)

lemma fs_inv_fcb: "fs_inv s \<Longrightarrow> k < 100 \<Longrightarrow> fcb_ok (inodes s ! k)"
  by (simp add: fs_inv_def list_all_length)

lemma fs_inv_parent: "fs_inv s \<Longrightarrow> 0 < k \<Longrightarrow> k < 100 \<Longrightarrow> number_ok (parent_inumber (inodes s ! k))"
  by (cases k) (simp_all add: fs_inv_def list_all_length nth_tl)

lemma fs_inv_n: "fs_inv s \<Longrightarrow> 0 \<le> n_inodes s \<and> n_inodes s \<le> 100"
  by (simp add: fs_inv_def geometry_ok_def)

lemma fs_inv_count: "fs_inv s \<Longrightarrow> nat (n_inodes s) \<le> 100"
  using fs_inv_n [of s] by linarith

lemma ptr_ok_canonical: "ptr_ok p \<Longrightarrow> ptr_canonical a p"
  by (auto simp: ptr_ok_def)

lemma fcb_ok_typed: "fcb_ok f \<Longrightarrow> fcb_typed a f"
  by (auto simp: fcb_ok_def fcb_typed_def dir_ok_def list_all_iff ptr_ok_canonical)

lemma fcb_ok_name: "fcb_ok f \<Longrightarrow> \<exists>n. cstr (fileName f) = Some n"
  by (auto simp: fcb_ok_def names_ok_def)

lemma fcb_ok_parent: "fcb_ok f \<Longrightarrow> \<exists>n. cstr (parentDir f) = Some n"
  by (auto simp: fcb_ok_def names_ok_def)

lemma fcb_ok_dir_length: "fcb_ok f \<Longrightarrow> length (dirContents f) = 30"
  by (simp add: fcb_ok_def fcb_sized_def)

lemma fcb_ok_ptr: "fcb_ok f \<Longrightarrow> j < 30 \<Longrightarrow> ptr_ok (dirContents f ! j)"
  by (auto simp: fcb_ok_def fcb_sized_def dir_ok_def list_all_length)

lemma ptr_ok_deref: "fs_inv s \<Longrightarrow> ptr_ok p \<Longrightarrow> p \<noteq> Null \<Longrightarrow> \<exists>k<100. p = Inode k \<and> deref s p = Some (inodes s ! k)"
  using fs_inv_length [of s] by (auto simp: ptr_ok_def)

text \<open>What an update of one inode must show for the invariant to survive.\<close>

lemma fs_inv_update:
  assumes "fs_inv s" and "fcb_ok f" and "0 < k \<Longrightarrow> number_ok (parent_inumber f)"
    and "k = 0 \<Longrightarrow> fileName f = fileName (inodes s ! 0)"
  shows "fs_inv (s\<lparr>inodes := (inodes s)[k := f]\<rparr>)"
proof -
  have "list_all fcb_ok ((inodes s)[k := f])"
    using assms(1,2) by (auto simp: fs_inv_def list_all_iff dest: set_update_subset_insert [THEN subsetD])
  moreover have "number_ok (parent_inumber ((inodes s)[k := f] ! Suc n))" if "n < 99" for n
    using that assms(3) fs_inv_parent [OF assms(1), of "Suc n"] fs_inv_length [OF assms(1)]
    by (cases "k = Suc n") simp_all
  then have "list_all (\<lambda>f. number_ok (parent_inumber f)) (tl ((inodes s)[k := f]))"
    by (simp add: list_all_length nth_tl fs_inv_length [OF assms(1)])
  moreover have "cstr (fileName ((inodes s)[k := f] ! 0)) = Some ''/''"
    using assms(1,4) by (cases "k = 0") (auto simp: fs_inv_def)
  ultimately show ?thesis using assms(1) by (simp add: fs_inv_def)
qed

lemma fs_inv_other [simp]:
  "fs_inv (s\<lparr>dev := d\<rparr>) = fs_inv s" "fs_inv (s\<lparr>errno := n\<rparr>) = fs_inv s"
  "fs_inv (s\<lparr>diskSize := z\<rparr>) = fs_inv s"
  by (simp_all add: fs_inv_def)

lemma fs_inv_bitmap:
  "fs_inv s \<Longrightarrow> fs_inv (s\<lparr>sBlock := (sBlock s)\<lparr>ibmap := (ibmap (sBlock s))[k := b]\<rparr>\<rparr>)"
  by (simp add: fs_inv_def geometry_ok_def superblock_typed_def)

lemma fcb0_ok: "fcb_ok fcb0"
proof -
  have "cstr (replicate 256 NUL) = Some []" by (simp add: numeral_eq_Suc)
  then show ?thesis
    by (simp add: fcb_ok_def fcb_sized_def names_ok_def dir_ok_def dir_packed_def number_ok_def
        fcb0_def ptr_ok_def list_all_iff)
qed

end
