(* ===== verification/Path_Names.thy ===== *)
theory Path_Names
  imports Platform
begin

text \<open>
  How \<open>src/src/DateiSteuerBlock.c\<close> takes paths apart: \<open>getRelativeParentName\<close> and the
  cut at the last slash that both \<open>create_inode\<close> and \<open>findFileOrDir\<close> make. A path is a
  list of components; the lemmas say what the two functions do on it.
\<close>

section \<open>The functions\<close>



text \<open>
  \<open>NULL\<close> is \<open>None\<close>, for the argument and for the result. The heap requests are made with
  the sizes of the code, and each may be refused.
\<close>

definition getRelativeParentName :: "env \<Rightarrow> string option \<Rightarrow> string option" where
  "getRelativeParentName e filePath =
     (case filePath of
        None \<Rightarrow> None
      | Some path \<Rightarrow>
          (case strrchr path slash of
             None \<Rightarrow> None
           | Some k \<Rightarrow>
               if \<not> alloc_ok e (length path) then None
               else
                 let lenAbsParent = length path - length (drop k path) in
                 if lenAbsParent = 0
                 then (if alloc_ok e 2 then Some ''/'' else None)
                 else
                   let absoluteParentName = take lenAbsParent path in
                   (case strrchr absoluteParentName slash of
                      Some j \<Rightarrow>
                        let fromLastSlashInAP = drop j absoluteParentName in
                        if alloc_ok e (length fromLastSlashInAP + 1)
                        then Some (drop 1 fromLastSlashInAP) else None
                    | None \<Rightarrow> if alloc_ok e 2 then Some ''/'' else None)))"

text \<open>\<open>pLastSlash ? pLastSlash+1 : path\<close>\<close>

definition relativeName :: "string \<Rightarrow> string" where
  "relativeName path = (case strrchr path slash of Some k \<Rightarrow> drop (k + 1) path | None \<Rightarrow> path)"

section \<open>Paths as lists of components\<close>

definition component :: "string \<Rightarrow> bool" where
  "component c \<longleftrightarrow> slash \<notin> set c \<and> NUL \<notin> set c \<and> c \<noteq> []"

definition path_of :: "string list \<Rightarrow> string" where
  "path_of cs = concat (map (\<lambda>c. slash # c) cs)"

text \<open>The name under which the directory of a path is recorded in its children.\<close>

definition dir_name :: "string list \<Rightarrow> string" where
  "dir_name cs = (if cs = [] then ''/'' else last cs)"

lemma path_of_snoc: "path_of (cs @ [c]) = path_of cs @ slash # c"
  by (simp add: path_of_def)

lemma path_of_Nil_iff [simp]: "path_of cs = [] \<longleftrightarrow> cs = []"
  by (cases cs) (simp_all add: path_of_def)

lemma cstring_path_of: "list_all component cs \<Longrightarrow> cstring (path_of cs)"
  by (auto simp: path_of_def cstring_def component_def list_all_iff)

lemma strrchr_path_of:
  "slash \<notin> set c \<Longrightarrow> strrchr (path_of (cs @ [c])) slash = Some (length (path_of cs))"
  by (simp add: path_of_snoc strrchr_append)

lemma relativeName_path_of: "slash \<notin> set c \<Longrightarrow> relativeName (path_of (cs @ [c])) = c"
  by (simp add: relativeName_def strrchr_path_of) (simp add: path_of_snoc)

lemma getRelativeParentName_cut:
  assumes "heap_ok e" and "slash \<notin> set c"
  shows "getRelativeParentName e (Some (A @ slash # c)) =
    Some (if A = [] then ''/''
      else case strrchr A slash of Some j \<Rightarrow> drop (Suc j) A | None \<Rightarrow> ''/'')"
  using assms
  by (auto simp: getRelativeParentName_def heap_ok_def Let_def strrchr_append split: option.splits)

lemma getRelativeParentName_path_of:
  assumes "heap_ok e" and "list_all component (cs @ [c])"
  shows "getRelativeParentName e (Some (path_of (cs @ [c]))) = Some (dir_name cs)"
proof -
  have c: "slash \<notin> set c" using assms(2) by (simp add: component_def)
  show ?thesis
  proof (cases cs rule: rev_cases)
    case Nil
    then show ?thesis
      using getRelativeParentName_cut [OF assms(1) c, of "[]"] by (simp add: dir_name_def path_of_def)
  next
    case (snoc ds d)
    then have d: "slash \<notin> set d" using assms(2) by (simp add: component_def)
    have "path_of (cs @ [c]) = path_of cs @ slash # c" by (rule path_of_snoc)
    moreover have "path_of cs = path_of ds @ slash # d" using snoc by (simp add: path_of_snoc)
    ultimately show ?thesis
      using getRelativeParentName_cut [OF assms(1) c, of "path_of cs"] strrchr_append [OF d] snoc
      by (simp add: dir_name_def)
  qed
qed

text \<open>Without a slash there is no parent name; with a refused request there is none either.\<close>

lemma getRelativeParentName_no_slash:
  "slash \<notin> set path \<Longrightarrow> getRelativeParentName e (Some path) = None"
  by (simp add: getRelativeParentName_def strrchr_None_iff [THEN iffD2])

lemma getRelativeParentName_NULL: "getRelativeParentName e None = None"
  by (simp add: getRelativeParentName_def)

lemma getRelativeParentName_cstring:
  assumes "cstring p" and "getRelativeParentName e (Some p) = Some q"
  shows "cstring q"
  using assms
  by (auto simp: getRelativeParentName_def Let_def cstring_def split: option.splits if_splits
      dest!: in_set_dropD in_set_takeD)

lemma getRelativeParentName_length:
  assumes "getRelativeParentName e (Some p) = Some q" and "2 \<le> length p"
  shows "length q < length p"
  using assms
  by (auto simp: getRelativeParentName_def Let_def split: option.splits if_splits)

lemma cstring_relativeName: "cstring p \<Longrightarrow> cstring (relativeName p)"
  by (auto simp: relativeName_def split: option.splits)

lemma relativeName_no_slash: "slash \<notin> set (relativeName p)"
  by (auto simp: relativeName_def dest: strrchr_NoneD strrchr_SomeD split: option.splits)

text \<open>With an obliging heap the result depends on the path alone.\<close>

lemma getRelativeParentName_env:
  "heap_ok e \<Longrightarrow> heap_ok e' \<Longrightarrow> getRelativeParentName e p = getRelativeParentName e' p"
  by (auto simp: getRelativeParentName_def heap_ok_def Let_def split: option.splits)

text \<open>Every path with a slash then has a parent name.\<close>

lemma getRelativeParentName_total:
  "heap_ok e \<Longrightarrow> slash \<in> set p \<Longrightarrow> \<exists>q. getRelativeParentName e (Some p) = Some q"
  by (cases "strrchr p slash")
    (auto simp: getRelativeParentName_def heap_ok_def Let_def strrchr_None_iff split: option.splits)

end
