(* ===== verification/First_Match.thy ===== *)
theory First_Match
  imports C_Prelude
begin

text \<open>
  The program searches arrays from the front in four places: for a free inode, for a free
  directory slot, for an inode with a given name, and for a directory entry with a given
  number. What the callers rely on is the same each time, the least index with a property;
  it is stated once as the locale \<open>first_match\<close> and interpreted on each search loop.
\<close>

locale first_match =
  fixes P :: "'s \<Rightarrow> nat \<Rightarrow> bool"
    and lo :: nat
    and bound :: "'s \<Rightarrow> nat"
    and valid :: "'s \<Rightarrow> bool"
    and search :: "'s \<Rightarrow> nat option"
  assumes found: "valid s \<Longrightarrow> search s = Some i \<Longrightarrow>
      lo \<le> i \<and> i < bound s \<and> P s i \<and> (\<forall>j. lo \<le> j \<longrightarrow> j < i \<longrightarrow> \<not> P s j)"
    and missed: "valid s \<Longrightarrow> search s = None \<Longrightarrow> lo \<le> j \<Longrightarrow> j < bound s \<Longrightarrow> \<not> P s j"
begin

lemma search_Some_iff:
  assumes "valid s"
  shows "search s = Some i \<longleftrightarrow>
    lo \<le> i \<and> i < bound s \<and> P s i \<and> (\<forall>j. lo \<le> j \<longrightarrow> j < i \<longrightarrow> \<not> P s j)"
proof
  assume "search s = Some i"
  then show "lo \<le> i \<and> i < bound s \<and> P s i \<and> (\<forall>j. lo \<le> j \<longrightarrow> j < i \<longrightarrow> \<not> P s j)"
    using found assms by blast
next
  assume r: "lo \<le> i \<and> i < bound s \<and> P s i \<and> (\<forall>j. lo \<le> j \<longrightarrow> j < i \<longrightarrow> \<not> P s j)"
  show "search s = Some i"
  proof (cases "search s")
    case None
    with missed [OF assms] r show ?thesis by blast
  next
    case (Some k)
    with found [OF assms] have "lo \<le> k \<and> P s k \<and> (\<forall>j. lo \<le> j \<longrightarrow> j < k \<longrightarrow> \<not> P s j)"
      by blast
    with r have "k = i" by (meson linorder_neqE_nat)
    with Some show ?thesis by simp
  qed
qed

lemma search_None_iff:
  assumes "valid s"
  shows "search s = None \<longleftrightarrow> (\<forall>j. lo \<le> j \<longrightarrow> j < bound s \<longrightarrow> \<not> P s j)"
  using missed [OF assms] found [OF assms] by (cases "search s") blast+

text \<open>Two states that agree on the property give the same answer.\<close>

lemma search_cong:
  assumes "valid s" and "valid t" and "bound s = bound t"
    and "\<And>j. lo \<le> j \<Longrightarrow> j < bound s \<Longrightarrow> P s j = P t j"
  shows "search s = search t"
proof (cases "search t")
  case None
  with assms have "\<forall>j. lo \<le> j \<longrightarrow> j < bound s \<longrightarrow> \<not> P s j"
    by (simp add: search_None_iff)
  with None assms(1) show ?thesis by (simp add: search_None_iff)
next
  case (Some i)
  with assms have "lo \<le> i \<and> i < bound s \<and> P s i \<and> (\<forall>j. lo \<le> j \<longrightarrow> j < i \<longrightarrow> \<not> P s j)"
    by (simp add: search_Some_iff)
  with Some assms(1) show ?thesis by (simp add: search_Some_iff)
qed

text \<open>Where exactly one index qualifies, it is found.\<close>

lemma search_unique:
  assumes "valid s" and "lo \<le> i" "i < bound s" "P s i"
    and "\<And>j. lo \<le> j \<Longrightarrow> j < bound s \<Longrightarrow> P s j \<Longrightarrow> j = i"
  shows "search s = Some i"
proof -
  have "\<not> P s j" if "lo \<le> j" "j < i" for j
    using that assms(3) assms(5) [of j] by auto
  with assms(1-4) show ?thesis by (simp add: search_Some_iff)
qed

end

text \<open>The library's \<open>find\<close> over an interval is the reference search.\<close>

lemma find_upt_Some_iff:
  "find Q [lo..<hi] = Some i \<longleftrightarrow> lo \<le> i \<and> i < hi \<and> Q i \<and> (\<forall>j. lo \<le> j \<longrightarrow> j < i \<longrightarrow> \<not> Q j)"
proof (induction "hi - lo" arbitrary: lo)
  case 0
  then show ?case by auto
next
  case (Suc n)
  then have "[lo..<hi] = lo # [Suc lo..<hi]" by (simp add: upt_conv_Cons)
  moreover have "find Q [Suc lo..<hi] = Some i \<longleftrightarrow>
      Suc lo \<le> i \<and> i < hi \<and> Q i \<and> (\<forall>j. Suc lo \<le> j \<longrightarrow> j < i \<longrightarrow> \<not> Q j)"
    using Suc by simp
  ultimately show ?case
    using Suc.hyps(2) by (auto simp: Suc_le_eq) (metis Suc_leI le_neq_implies_less not_less_eq_eq)+
qed

lemma find_upt_None_iff: "find Q [lo..<hi] = None \<longleftrightarrow> (\<forall>j. lo \<le> j \<longrightarrow> j < hi \<longrightarrow> \<not> Q j)"
  by (auto simp: find_None_iff)

lemma find_upt_Cons: "lo < hi \<Longrightarrow> find Q [lo..<hi] = (if Q lo then Some lo else find Q [Suc lo..<hi])"
  by (simp add: upt_conv_Cons)

end
