(* ===== verification/Lookup.thy ===== *)
theory Lookup
  imports Fs_State Path_Names First_Match
begin

text \<open>
  Finding inodes (\<open>src/src/DateiSteuerBlock.c\<close>): the root, the parent of an inode, the
  inode a path names, the first free inode, and the name dump. The search by path is shown
  to be the first index that carries the last component as its name and the component
  before it as its parent's name; nothing else of the path is looked at.
\<close>

section \<open>The functions\<close>

definition findRootOrDieTrying :: "fs \<Rightarrow> fcb_ptr option" where
  "findRootOrDieTrying s = do {
     root \<leftarrow> inode_address s 0;
     Some (if root = Null then Null else root) }"

definition getParentFcb :: "fs \<Rightarrow> fcb_ptr \<Rightarrow> fcb_ptr option" where
  "getParentFcb s child =
     (if child \<noteq> Null
      then do { c \<leftarrow> deref s child; inode_address s (sint (parent_inumber c)) }
      else Some Null)"

text \<open>
  The loop of \<open>findFileOrDir\<close> from index \<open>x\<close>, with \<open>n\<close> rounds left. A path whose parent
  name cannot be computed matches on the name alone.
\<close>

fun findFileOrDir_loop :: "env \<Rightarrow> fs \<Rightarrow> string \<Rightarrow> string \<Rightarrow> nat \<Rightarrow> nat \<Rightarrow> fcb_ptr option" where
  "findFileOrDir_loop e s filePath rel x 0 = Some Null"
| "findFileOrDir_loop e s filePath rel x (Suc n) = do {
     currFCB \<leftarrow> arr_get (inodes s) (int x);
     same \<leftarrow> strcmp_eq (fileName currFCB) rel;
     (if same then
        (case getRelativeParentName e (Some filePath) of
           Some parentName \<Rightarrow> do {
             sameParent \<leftarrow> strcmp_eq (parentDir currFCB) parentName;
             (if sameParent then Some (Inode x)
              else findFileOrDir_loop e s filePath rel (Suc x) n) }
         | None \<Rightarrow> Some (Inode x))
      else findFileOrDir_loop e s filePath rel (Suc x) n) }"

definition findFileOrDir :: "env \<Rightarrow> fs \<Rightarrow> string \<Rightarrow> fcb_ptr option" where
  "findFileOrDir e s filePath =
     (if filePath = ''/'' then findRootOrDieTrying s
      else findFileOrDir_loop e s filePath (relativeName filePath) 0 (nat (n_inodes s)))"

fun getFreeInodeNum_loop :: "superblock \<Rightarrow> nat \<Rightarrow> nat \<Rightarrow> int option" where
  "getFreeInodeNum_loop sb i 0 = Some (- 1)"
| "getFreeInodeNum_loop sb i (Suc n) = do {
     b \<leftarrow> arr_get (ibmap sb) (int i);
     (if b = 0 then Some (int i) else getFreeInodeNum_loop sb (Suc i) n) }"

definition getFreeInodeNum :: "superblock \<Rightarrow> int option" where
  "getFreeInodeNum sb = getFreeInodeNum_loop sb 0 (nat (sint (numInodes sb)))"

text \<open>The lines \<open>showInodeNames\<close> logs for the first 64 inodes; a named one gets two.\<close>

datatype name_line = NullName nat | NameLine nat string

fun showInodeNames_loop :: "fs \<Rightarrow> nat \<Rightarrow> nat \<Rightarrow> name_line list option" where
  "showInodeNames_loop s i 0 = Some []"
| "showInodeNames_loop s i (Suc n) = do {
     f \<leftarrow> arr_get (inodes s) (int i);
     ls \<leftarrow> (if fileName f ! 0 = NUL then Some [NullName i]
           else do { name \<leftarrow> cstr (fileName f); Some [NameLine i name, NullName i] });
     rest \<leftarrow> showInodeNames_loop s (Suc i) n;
     Some (ls @ rest) }"

definition showInodeNames :: "fs \<Rightarrow> name_line list option" where
  "showInodeNames s = showInodeNames_loop s 0 64"

section \<open>The root and the parent\<close>

lemma findRoot_inv: "fs_inv s \<Longrightarrow> findRootOrDieTrying s = Some (Inode 0)"
  using fs_inv_length [of s] by (auto simp: findRootOrDieTrying_def inode_address_def)

lemma getParentFcb_inv:
  assumes "fs_inv s" and "0 < k" and "k < 100"
  shows "getParentFcb s (Inode k) = Some (Inode (nat (sint (parent_inumber (inodes s ! k)))))"
  using fs_inv_parent [OF assms] fs_inv_length [OF assms(1)] assms(3)
  by (simp add: getParentFcb_def inode_address_def number_ok_def)

lemma getParentFcb_root_undefined:
  "fs_inv s \<Longrightarrow> parent_inumber (inodes s ! 0) = - 1 \<Longrightarrow> getParentFcb s (Inode 0) = None"
  using fs_inv_length [of s] by (simp add: getParentFcb_def inode_address_def)

section \<open>The search by path\<close>

text \<open>The strings an inode holds in its two name arrays.\<close>

definition name_of :: "fcb \<Rightarrow> string" where "name_of f = the (cstr (fileName f))"
definition parent_name_of :: "fcb \<Rightarrow> string" where "parent_name_of f = the (cstr (parentDir f))"

definition entry_matches :: "env \<Rightarrow> string \<Rightarrow> fcb \<Rightarrow> bool" where
  "entry_matches e p f \<longleftrightarrow> name_of f = relativeName p \<and>
     (case getRelativeParentName e (Some p) of None \<Rightarrow> True | Some q \<Rightarrow> parent_name_of f = q)"

lemma name_of_cstr: "fcb_ok f \<Longrightarrow> cstr (fileName f) = Some (name_of f)"
  using fcb_ok_name by (auto simp: name_of_def)

lemma parent_name_of_cstr: "fcb_ok f \<Longrightarrow> cstr (parentDir f) = Some (parent_name_of f)"
  using fcb_ok_parent by (auto simp: parent_name_of_def)

lemma strcmp_name: "fcb_ok f \<Longrightarrow> cstring p \<Longrightarrow> strcmp_eq (fileName f) p = Some (name_of f = p)"
  by (simp add: strcmp_eq_cstr name_of_cstr)

lemma strcmp_parent: "fcb_ok f \<Longrightarrow> cstring p \<Longrightarrow> strcmp_eq (parentDir f) p = Some (parent_name_of f = p)"
  by (simp add: strcmp_eq_cstr parent_name_of_cstr)

text \<open>One round of the loop on a well-formed state.\<close>

lemma findFileOrDir_round:
  assumes "fs_inv s" and "cstring p" and "x < 100"
  shows "findFileOrDir_loop e s p (relativeName p) x (Suc n) =
    (if entry_matches e p (inodes s ! x) then Some (Inode x)
     else findFileOrDir_loop e s p (relativeName p) (Suc x) n)"
proof -
  have f: "fcb_ok (inodes s ! x)" by (rule fs_inv_fcb [OF assms(1,3)])
  have g: "arr_get (inodes s) (int x) = Some (inodes s ! x)"
    using assms(3) fs_inv_length [OF assms(1)] by simp
  note names = strcmp_name [OF f cstring_relativeName [OF assms(2)]]
  show ?thesis
  proof (cases "getRelativeParentName e (Some p)")
    case None
    then show ?thesis by (simp add: g names entry_matches_def)
  next
    case (Some q)
    note strcmp_parent [OF f getRelativeParentName_cstring [OF assms(2) Some]]
    with Some show ?thesis by (simp add: g names entry_matches_def)
  qed
qed

lemma findFileOrDir_loop_spec:
  assumes "fs_inv s" and "cstring p" and "x + n \<le> 100"
  shows "findFileOrDir_loop e s p (relativeName p) x n =
    Some (case find (\<lambda>i. entry_matches e p (inodes s ! i)) [x..<x + n] of
            None \<Rightarrow> Null | Some i \<Rightarrow> Inode i)"
  using assms(3)
proof (induction n arbitrary: x)
  case 0
  then show ?case by simp
next
  case (Suc n)
  then have "x < 100" and "Suc x + n \<le> 100" by simp_all
  from findFileOrDir_round [OF assms(1,2) this(1)] Suc.IH [OF this(2)] show ?case
    by (simp add: find_upt_Cons del: findFileOrDir_loop.simps upt_Suc)
qed

lemma found_case:
  "(case r of None \<Rightarrow> Null | Some i \<Rightarrow> Inode i) = Inode k \<longleftrightarrow> r = Some k"
  "(case r of None \<Rightarrow> Null | Some i \<Rightarrow> Inode i) = Null \<longleftrightarrow> r = None"
  by (auto split: option.split)

text \<open>The search as a first match over the inode array.\<close>

definition found_index :: "fcb_ptr option \<Rightarrow> nat option" where
  "found_index r = (case r of Some (Inode i) \<Rightarrow> Some i | _ \<Rightarrow> None)"

lemma findFileOrDir_find:
  assumes "fs_inv s" and "cstring p" and "p \<noteq> ''/''"
  shows "findFileOrDir e s p =
    Some (case find (\<lambda>i. entry_matches e p (inodes s ! i)) [0..<nat (n_inodes s)] of
            None \<Rightarrow> Null | Some i \<Rightarrow> Inode i)"
proof -
  have "0 + nat (n_inodes s) \<le> 100" using fs_inv_count [OF assms(1)] by simp
  from findFileOrDir_loop_spec [OF assms(1,2) this] assms(3) show ?thesis
    by (simp add: findFileOrDir_def del: findFileOrDir_loop.simps)
qed

lemma found_index_findFileOrDir:
  assumes "fs_inv s" and "cstring p" and "p \<noteq> ''/''"
  shows "found_index (findFileOrDir e s p) =
    find (\<lambda>i. entry_matches e p (inodes s ! i)) [0..<nat (n_inodes s)]"
  by (simp add: findFileOrDir_find [OF assms] found_index_def split: option.splits)

interpretation path_search: first_match
  "\<lambda>(e, p, s) i. entry_matches e p (inodes s ! i)" 0 "\<lambda>(e, p, s). nat (n_inodes s)"
  "\<lambda>(e, p, s). fs_inv s \<and> cstring p \<and> p \<noteq> ''/''" "\<lambda>(e, p, s). found_index (findFileOrDir e s p)"
  by unfold_locales
    (auto simp: found_index_findFileOrDir find_upt_Some_iff find_upt_None_iff)

text \<open>On a well-formed state the search is defined, and what it returns can be followed.\<close>

lemma findFileOrDir_cases:
  assumes "fs_inv s" and "cstring p"
  obtains "findFileOrDir e s p = Some Null" and "p \<noteq> ''/''"
    and "\<And>i. i < nat (n_inodes s) \<Longrightarrow> \<not> entry_matches e p (inodes s ! i)"
  | k where "findFileOrDir e s p = Some (Inode k)" and "k < 100"
    and "p = ''/'' \<Longrightarrow> k = 0"
    and "p \<noteq> ''/'' \<Longrightarrow> entry_matches e p (inodes s ! k) \<and> k < nat (n_inodes s)"
proof (cases "p = ''/''")
  case True
  then have "findFileOrDir e s p = Some (Inode 0)"
    using findRoot_inv [OF assms(1)] by (simp add: findFileOrDir_def)
  then show ?thesis using that(2) [of 0] True by simp
next
  case False
  show ?thesis
  proof (cases "find (\<lambda>i. entry_matches e p (inodes s ! i)) [0..<nat (n_inodes s)]")
    case None
    then have "findFileOrDir e s p = Some Null"
      using findFileOrDir_find [OF assms False, of e] by simp
    with None show ?thesis using False by (intro that(1)) (simp_all add: find_upt_None_iff)
  next
    case (Some k)
    then have "findFileOrDir e s p = Some (Inode k)"
      using findFileOrDir_find [OF assms False, of e] by simp
    moreover have "k < nat (n_inodes s)" and "entry_matches e p (inodes s ! k)"
      using Some by (simp_all add: find_upt_Some_iff)
    ultimately show ?thesis
      using False fs_inv_count [OF assms(1)] by (intro that(2) [of k]) auto
  qed
qed

text \<open>The root directory's own name contains a slash, so no other path finds the root.\<close>

lemma entry_matches_not_root:
  assumes "fs_inv s"
  shows "\<not> entry_matches e p (inodes s ! 0)"
proof
  assume "entry_matches e p (inodes s ! 0)"
  then have "relativeName p = ''/''"
    using assms by (simp add: entry_matches_def name_of_def fs_inv_def)
  with relativeName_no_slash [of p] show False by simp
qed

lemma findFileOrDir_nonroot:
  assumes "fs_inv s" and "cstring p" and "p \<noteq> ''/''" and "findFileOrDir e s p = Some (Inode k)"
  shows "0 < k \<and> k < 100 \<and> k < nat (n_inodes s) \<and> entry_matches e p (inodes s ! k)"
proof -
  have "k < 100 \<and> k < nat (n_inodes s) \<and> entry_matches e p (inodes s ! k)"
    by (rule findFileOrDir_cases [OF assms(1,2), of e]) (use assms(3,4) in auto)
  with entry_matches_not_root [OF assms(1)] show ?thesis by (cases k) auto
qed

text \<open>The answer depends on the inodes' names and the count alone.\<close>

lemma findFileOrDir_cong:
  assumes "fs_inv s" and "fs_inv t" and "cstring p" and "n_inodes s = n_inodes t"
    and "\<And>i. i < 100 \<Longrightarrow> i < nat (n_inodes s) \<Longrightarrow> fileName (inodes s ! i) = fileName (inodes t ! i)"
    and "\<And>i. i < 100 \<Longrightarrow> i < nat (n_inodes s) \<Longrightarrow> parentDir (inodes s ! i) = parentDir (inodes t ! i)"
  shows "findFileOrDir e s p = findFileOrDir e t p"
proof (cases "p = ''/''")
  case True
  then show ?thesis using assms(1,2) by (simp add: findFileOrDir_def findRoot_inv)
next
  case False
  have "entry_matches e p (inodes s ! i) = entry_matches e p (inodes t ! i)"
    if "i < nat (n_inodes s)" for i
  proof -
    have "i < 100" using that fs_inv_count [OF assms(1)] by linarith
    then show ?thesis
      using that by (simp add: entry_matches_def name_of_def parent_name_of_def assms(5,6) split: option.split)
  qed
  then have "find (\<lambda>i. entry_matches e p (inodes s ! i)) [0..<nat (n_inodes s)]
      = find (\<lambda>i. entry_matches e p (inodes t ! i)) [0..<nat (n_inodes t)]"
    by (intro find_cong) (auto simp: assms(4))
  then show ?thesis
    using findFileOrDir_find [OF assms(1,3) False] findFileOrDir_find [OF assms(2,3) False] by simp
qed

section \<open>Free inodes\<close>

lemma getFreeInodeNum_loop_spec:
  assumes "i + n \<le> length (ibmap sb)"
  shows "getFreeInodeNum_loop sb i n =
    Some (case find (\<lambda>j. ibmap sb ! j = 0) [i..<i + n] of None \<Rightarrow> - 1 | Some j \<Rightarrow> int j)"
  using assms
proof (induction n arbitrary: i)
  case 0
  then show ?case by simp
next
  case (Suc n)
  then show ?case by (simp add: find_upt_Cons del: upt_Suc)
qed

definition free_index :: "int option \<Rightarrow> nat option" where
  "free_index r = (case r of Some i \<Rightarrow> if 0 \<le> i then Some (nat i) else None | None \<Rightarrow> None)"

lemma getFreeInodeNum_find:
  assumes "nat (sint (numInodes sb)) \<le> length (ibmap sb)"
  shows "free_index (getFreeInodeNum sb) = find (\<lambda>j. ibmap sb ! j = 0) [0..<nat (sint (numInodes sb))]"
  using assms
  by (simp add: getFreeInodeNum_def getFreeInodeNum_loop_spec free_index_def split: option.splits)

interpretation free_inode: first_match
  "\<lambda>sb i. ibmap sb ! i = 0" 0 "\<lambda>sb. nat (sint (numInodes sb))"
  "\<lambda>sb. nat (sint (numInodes sb)) \<le> length (ibmap sb)" "\<lambda>sb. free_index (getFreeInodeNum sb)"
  by unfold_locales (auto simp: getFreeInodeNum_find find_upt_Some_iff find_upt_None_iff)

section \<open>The name dump\<close>

lemma showInodeNames_loop_total:
  "fs_inv s \<Longrightarrow> i + n \<le> 100 \<Longrightarrow> \<exists>ls. showInodeNames_loop s i n = Some ls \<and> length ls \<le> 2 * n"
proof (induction n arbitrary: i)
  case 0
  then show ?case by simp
next
  case (Suc n)
  obtain ls where "showInodeNames_loop s (Suc i) n = Some ls" "length ls \<le> 2 * n"
    using Suc.IH [of "Suc i"] Suc.prems by auto
  moreover have "arr_get (inodes s) (int i) = Some (inodes s ! i)"
    using Suc.prems fs_inv_length [OF Suc.prems(1)] by simp
  moreover have "cstr (fileName (inodes s ! i)) = Some (name_of (inodes s ! i))"
    using Suc.prems by (intro name_of_cstr fs_inv_fcb) auto
  ultimately show ?case by simp
qed

end
