(* ===== verification/Directory.thy ===== *)
theory Directory
  imports Fs_State First_Match "HOL-Library.Multiset"
begin

text \<open>
  Directory entries (\<open>src/src/DateiSteuerBlock.c\<close>): the thirty slots \<open>dirContents\<close> of an
  inode, adding an inode to them and taking one out. The slots are shown to implement a
  bounded multiset of inodes (the locale \<open>slot_table\<close>) as long as the last slot is used
  only when all are, which the operations maintain; where removal leaves a gap is stated
  exactly, because \<open>sfs_readdir\<close> lists a directory up to its first gap.
\<close>

section \<open>The functions\<close>

definition initDirContents :: "fcb \<Rightarrow> fcb" where
  "initDirContents f = f\<lparr>dirContents := replicate MAX_FILES_IN_DIR Null\<rparr>"

text \<open>The loop of \<open>add_to_direntry\<close> from slot \<open>i\<close>, with \<open>n\<close> rounds left: where it stops, and the slots.\<close>

fun add_loop :: "fcb_ptr list \<Rightarrow> fcb_ptr \<Rightarrow> nat \<Rightarrow> nat \<Rightarrow> nat \<times> fcb_ptr list" where
  "add_loop dc child i 0 = (i, dc)"
| "add_loop dc child i (Suc n) =
     (if dc ! i = Null then (i, dc[i := child]) else add_loop dc child (Suc i) n)"

text \<open>\<open>parent->dirContents\<close> is an array, so the test for a null array is never taken.\<close>

definition add_to_direntry :: "fs \<Rightarrow> fcb_ptr \<Rightarrow> fcb_ptr \<Rightarrow> (bool \<times> fs) option" where
  "add_to_direntry s parent child =
     (if parent \<noteq> Null \<and> child \<noteq> Null then do {
        p \<leftarrow> deref s parent;
        let (i, dc) = add_loop (dirContents p) child 0 MAX_FILES_IN_DIR;
        s' \<leftarrow> store s parent (p\<lparr>dirContents := dc\<rparr>);
        Some (if MAX_FILES_IN_DIR < i then False else True, s') }
      else Some (True, s))"

text \<open>The walk that looks for the last entry: it steps over the slot behind a used one.\<close>

function last_walk :: "fcb_ptr list \<Rightarrow> nat \<Rightarrow> nat" where
  "last_walk dc i =
     (if i < MAX_FILES_IN_DIR
      then (if dc ! i \<noteq> Null then last_walk dc (i + 1 + 1) else last_walk dc (i + 1))
      else i)"
  by pat_completeness auto
termination
  by (relation "measure (\<lambda>(dc, i). 30 - i)") auto

declare last_walk.simps [simp del]

definition indexed_remove_from_direntry :: "fs \<Rightarrow> fcb_ptr \<Rightarrow> int \<Rightarrow> (bool \<times> fs) option" where
  "indexed_remove_from_direntry s parent dirContentIndex =
     (if parent \<noteq> Null then do {
        p \<leftarrow> deref s parent;
        let lastEntry = int (last_walk (dirContents p) 0) - 1;
        (if lastEntry \<noteq> - 1 then
           (if lastEntry = dirContentIndex then do {
              dc \<leftarrow> arr_set (dirContents p) lastEntry Null;
              s' \<leftarrow> store s parent (p\<lparr>dirContents := dc\<rparr>);
              Some (True, s') }
            else do {
              q \<leftarrow> arr_get (dirContents p) lastEntry;
              dc \<leftarrow> arr_set (dirContents p) dirContentIndex q;
              dc' \<leftarrow> arr_set dc lastEntry Null;
              s' \<leftarrow> store s parent (p\<lparr>dirContents := dc'\<rparr>);
              Some (True, s') })
         else Some (False, s)) }
      else Some (False, s))"

fun remove_loop :: "fs \<Rightarrow> fcb_ptr \<Rightarrow> fcb_ptr \<Rightarrow> nat \<Rightarrow> nat \<Rightarrow> (bool \<times> fs) option" where
  "remove_loop s parent child i 0 = Some (if MAX_FILES_IN_DIR < i then False else True, s)"
| "remove_loop s parent child i (Suc n) = do {
     p \<leftarrow> deref s parent;
     (if dirContents p ! i \<noteq> Null then do {
        entry \<leftarrow> deref s (dirContents p ! i);
        c \<leftarrow> deref s child;
        (if inumber entry = inumber c then do {
           (removed, s') \<leftarrow> indexed_remove_from_direntry s parent (int i);
           Some (if removed then True else False, s') }
         else remove_loop s parent child (Suc i) n) }
      else remove_loop s parent child (Suc i) n) }"

definition remove_from_direntry :: "fs \<Rightarrow> fcb_ptr \<Rightarrow> fcb_ptr \<Rightarrow> (bool \<times> fs) option" where
  "remove_from_direntry s parent child =
     (if parent \<noteq> Null \<and> child \<noteq> Null then remove_loop s parent child 0 MAX_FILES_IN_DIR
      else Some (False, s))"

section \<open>The slots as a bounded multiset\<close>

text \<open>What a directory is to its callers: a multiset of entries with room for \<open>cap\<close>.\<close>

locale slot_table =
  fixes put :: "'e \<Rightarrow> 't \<Rightarrow> 't"
    and take_out :: "nat \<Rightarrow> 't \<Rightarrow> 't"
    and slot :: "'t \<Rightarrow> nat \<Rightarrow> 'e option"
    and entries :: "'t \<Rightarrow> 'e multiset"
    and cap :: nat
    and inv :: "'t \<Rightarrow> bool"
  assumes slot_entry: "inv t \<Longrightarrow> slot t j = Some x \<Longrightarrow> x \<in># entries t"
    and entry_slot: "inv t \<Longrightarrow> x \<in># entries t \<Longrightarrow> \<exists>j. slot t j = Some x"
    and size_entries: "inv t \<Longrightarrow> size (entries t) \<le> cap"
    and entries_put: "inv t \<Longrightarrow> size (entries t) < cap \<Longrightarrow> entries (put x t) = add_mset x (entries t)"
    and put_full: "inv t \<Longrightarrow> size (entries t) = cap \<Longrightarrow> put x t = t"
    and entries_take: "inv t \<Longrightarrow> slot t j = Some x \<Longrightarrow> entries (take_out j t) = entries t - {#x#}"
    and inv_put: "inv t \<Longrightarrow> inv (put x t)"
    and inv_take: "inv t \<Longrightarrow> slot t j = Some x \<Longrightarrow> inv (take_out j t)"
begin

lemma entries_put_cases:
  "inv t \<Longrightarrow> entries (put x t) = (if size (entries t) < cap then add_mset x (entries t) else entries t)"
  using size_entries [of t] entries_put put_full by (auto simp: not_less)

lemma put_take_back:
  assumes "inv t" and "size (entries t) < cap" and "slot (put x t) j = Some x"
  shows "entries (take_out j (put x t)) = entries t"
  using assms by (simp add: entries_take inv_put entries_put)

lemma size_take: "inv t \<Longrightarrow> slot t j = Some x \<Longrightarrow> size (entries (take_out j t)) < size (entries t)"
  using slot_entry by (simp add: entries_take size_Diff1_less)

text \<open>After an entry is taken out there is room again.\<close>

lemma put_after_take:
  assumes "inv t" and "slot t j = Some x"
  shows "entries (put y (take_out j t)) = add_mset y (entries t - {#x#})"
proof -
  have "size (entries (take_out j t)) < cap"
    using size_take [OF assms] size_entries [OF assms(1)] by linarith
  then show ?thesis using assms by (simp add: entries_put inv_take entries_take)
qed

end

text \<open>The instance: a table is the slot list, an entry the index of an inode.\<close>

definition put_entry :: "nat \<Rightarrow> fcb_ptr list \<Rightarrow> fcb_ptr list" where
  "put_entry k dc = snd (add_loop dc (Inode k) 0 30)"

definition take_entry :: "nat \<Rightarrow> fcb_ptr list \<Rightarrow> fcb_ptr list" where
  "take_entry j dc = (if j = 29 then dc[29 := Null] else (dc[j := dc ! 29])[29 := Null])"

definition slot_of :: "fcb_ptr list \<Rightarrow> nat \<Rightarrow> nat option" where
  "slot_of dc j = (if j < length dc then (case dc ! j of Inode k \<Rightarrow> Some k | _ \<Rightarrow> None) else None)"

fun ptr_index :: "fcb_ptr \<Rightarrow> nat" where
  "ptr_index (Inode k) = k"
| "ptr_index p = 0"

definition used_slots :: "fcb_ptr list \<Rightarrow> fcb_ptr multiset" where
  "used_slots dc = filter_mset (\<lambda>p. p \<noteq> Null) (mset dc)"

definition dir_entries :: "fcb_ptr list \<Rightarrow> nat multiset" where
  "dir_entries dc = image_mset ptr_index (used_slots dc)"

definition no_wild :: "fcb_ptr list \<Rightarrow> bool" where
  "no_wild dc \<longleftrightarrow> (\<forall>p \<in> set dc. p = Null \<or> (\<exists>k. p = Inode k))"

definition slots_inv :: "fcb_ptr list \<Rightarrow> bool" where
  "slots_inv dc \<longleftrightarrow> length dc = 30 \<and> no_wild dc \<and> dir_packed dc"

section \<open>Adding an entry\<close>

lemma add_loop_spec:
  assumes "i + n = length dc"
  shows "add_loop dc child i n =
    (case find (\<lambda>j. dc ! j = Null) [i..<length dc] of None \<Rightarrow> (length dc, dc)
     | Some j \<Rightarrow> (j, dc[j := child]))"
  using assms
proof (induction n arbitrary: i)
  case 0
  then show ?case by simp
next
  case (Suc n)
  then show ?case by (simp add: find_upt_Cons del: upt_Suc)
qed

definition free_slot :: "fcb_ptr list \<Rightarrow> nat option" where
  "free_slot dc = (let (i, dc') = add_loop dc (Inode 0) 0 30 in if i < 30 then Some i else None)"

lemma free_slot_find:
  assumes "length dc = 30"
  shows "free_slot dc = find (\<lambda>j. dc ! j = Null) [0..<30]"
proof (cases "find (\<lambda>j. dc ! j = Null) [0..<30]")
  case None
  then show ?thesis using add_loop_spec [of 0 30 dc "Inode 0"] assms by (simp add: free_slot_def)
next
  case (Some j)
  then have "j < 30" by (simp add: find_upt_Some_iff)
  with Some show ?thesis
    using add_loop_spec [of 0 30 dc "Inode 0"] assms by (simp add: free_slot_def)
qed

interpretation free_entry: first_match
  "\<lambda>dc j. dc ! j = Null" 0 "\<lambda>dc. 30" "\<lambda>dc. length dc = 30" free_slot
  by unfold_locales (auto simp: free_slot_find find_upt_Some_iff find_upt_None_iff)

lemma add_loop_free:
  assumes "length dc = 30"
  shows "add_loop dc child 0 30 = (case free_slot dc of None \<Rightarrow> (30, dc) | Some j \<Rightarrow> (j, dc[j := child]))"
  using add_loop_spec [of 0 30 dc child] assms by (simp add: free_slot_find split: option.split)

lemma put_entry_free:
  "length dc = 30 \<Longrightarrow> put_entry k dc = (case free_slot dc of None \<Rightarrow> dc | Some j \<Rightarrow> dc[j := Inode k])"
  by (simp add: put_entry_def add_loop_free split: option.split)

lemma put_entry_full: "length dc = 30 \<Longrightarrow> Null \<notin> set dc \<Longrightarrow> put_entry k dc = dc"
  by (auto simp: put_entry_free free_entry.search_Some_iff split: option.split) (metis nth_mem)

lemma put_entry_room:
  assumes "length dc = 30" and "Null \<in> set dc"
  obtains j where "j < 30" and "put_entry k dc = dc[j := Inode k]" and "\<forall>x<j. dc ! x \<noteq> Null"
proof (cases "free_slot dc")
  case None
  then show ?thesis using assms by (auto simp: free_entry.search_None_iff in_set_conv_nth)
next
  case (Some j)
  then have "j < 30 \<and> dc ! j = Null \<and> (\<forall>x<j. dc ! x \<noteq> Null)"
    using assms(1) by (simp add: free_entry.search_Some_iff)
  moreover have "put_entry k dc = dc[j := Inode k]" using Some assms(1) by (simp add: put_entry_free)
  ultimately show ?thesis using that by blast
qed

text \<open>The slots are full exactly when thirty are in use.\<close>

lemma size_used: "size (used_slots dc) = length (filter (\<lambda>p. p \<noteq> Null) dc)"
  by (simp only: used_slots_def mset_filter [symmetric] size_mset)

lemma size_used_le: "length dc = 30 \<Longrightarrow> size (used_slots dc) \<le> 30"
  using length_filter_le [of "\<lambda>p. p \<noteq> Null" dc] by (simp add: size_used)

lemma length_filter_full: "length (filter Q xs) = length xs \<longleftrightarrow> (\<forall>j<length xs. Q (xs ! j))"
proof
  assume l: "length (filter Q xs) = length xs"
  have "Q x" if "x \<in> set xs" for x
    using length_filter_less [OF that, of Q] l by (cases "Q x") auto
  then show "\<forall>j<length xs. Q (xs ! j)" by simp
next
  assume "\<forall>j<length xs. Q (xs ! j)"
  then have "filter Q xs = xs" by (auto simp: filter_id_conv in_set_conv_nth)
  then show "length (filter Q xs) = length xs" by simp
qed

lemma size_used_full:
  assumes "length dc = 30"
  shows "size (used_slots dc) = 30 \<longleftrightarrow> free_slot dc = None"
  using length_filter_full [of "\<lambda>p. p \<noteq> Null" dc] assms
  by (simp add: size_used free_entry.search_None_iff)

lemma used_update_free:
  assumes "j < length dc" and "dc ! j = Null" and "p \<noteq> Null"
  shows "used_slots (dc[j := p]) = add_mset p (used_slots dc)"
  using assms by (simp add: used_slots_def mset_update)

lemma add_to_direntry_in:
  assumes "k < length (inodes s)" and "length (dirContents (inodes s ! k)) = 30" and "child \<noteq> Null"
  shows "add_to_direntry s (Inode k) child = Some (True,
    s\<lparr>inodes := (inodes s)[k := (inodes s ! k)\<lparr>dirContents :=
      snd (add_loop (dirContents (inodes s ! k)) child 0 30)\<rparr>]\<rparr>)"
  using assms by (simp add: add_to_direntry_def add_loop_free free_entry.search_Some_iff split: option.split)

lemma dir_packed_put:
  assumes "length dc = 30" and "dir_packed dc"
  shows "dir_packed (put_entry k dc)"
proof (cases "free_slot dc")
  case None
  then show ?thesis using assms by (simp add: put_entry_free)
next
  case (Some j)
  then have "j < 30 \<and> dc ! j = Null \<and> (\<forall>i<j. dc ! i \<noteq> Null)"
    using assms(1) by (simp add: free_entry.search_Some_iff)
  then show ?thesis
    using assms Some by (auto simp: put_entry_free dir_packed_def nth_list_update)
qed

lemma no_wild_put: "length dc = 30 \<Longrightarrow> no_wild dc \<Longrightarrow> no_wild (put_entry k dc)"
  by (auto simp: put_entry_free no_wild_def split: option.split dest: set_update_subset_insert [THEN subsetD])

section \<open>Taking an entry out\<close>

text \<open>Where the walk ends: with the last slot unused, or with all used, just behind the array.\<close>

lemma last_walk_unused:
  assumes "dc ! 29 = Null" and "i \<le> 30"
  shows "last_walk dc i = 30"
  using assms
proof (induction dc i rule: last_walk.induct)
  case (1 dc i)
  show ?case
  proof (cases "i < 30")
    case True
    then have "dc ! i \<noteq> Null \<Longrightarrow> i + 2 \<le> 30" using "1.prems"(1) by (cases "i = 29") auto
    with True "1.IH" "1.prems" show ?thesis by (subst last_walk.simps) simp
  next
    case False
    with "1.prems" show ?thesis by (subst last_walk.simps) simp
  qed
qed

lemma last_walk_full:
  assumes "\<forall>j<30. dc ! j \<noteq> Null" and "even i" and "i \<le> 30"
  shows "last_walk dc i = 30"
  using assms
proof (induction dc i rule: last_walk.induct)
  case (1 dc i)
  show ?case
  proof (cases "i < 30")
    case True
    then have "i + 2 \<le> 30" using "1.prems"(2) by presburger
    with True "1.IH" "1.prems" show ?thesis by (subst last_walk.simps) simp
  next
    case False
    with "1.prems" show ?thesis by (subst last_walk.simps) simp
  qed
qed

lemma last_walk_packed: "dir_packed dc \<Longrightarrow> last_walk dc 0 = 30"
proof (cases "dc ! 29 = Null")
  case True
  then show ?thesis by (simp add: last_walk_unused)
next
  case False
  assume "dir_packed dc"
  with False have "\<forall>j<30. dc ! j \<noteq> Null"
    unfolding dir_packed_def by (auto simp: less_Suc_eq numeral_eq_Suc)
  then show ?thesis by (simp add: last_walk_full)
qed

text \<open>Without the packing the walk may end one step further, behind the array.\<close>

lemma last_walk_range: "i \<le> 31 \<Longrightarrow> 30 \<le> last_walk dc i \<and> last_walk dc i \<le> 31"
proof (induction dc i rule: last_walk.induct)
  case (1 dc i)
  show ?case
  proof (cases "i < 30")
    case True
    with "1.IH" show ?thesis by (subst (1 2) last_walk.simps) simp
  next
    case False
    with "1.prems" show ?thesis by (subst (1 2) last_walk.simps) simp
  qed
qed

lemma indexed_remove_in:
  assumes "k < length (inodes s)" and "length (dirContents (inodes s ! k)) = 30"
    and "dir_packed (dirContents (inodes s ! k))" and "j < 30"
  shows "indexed_remove_from_direntry s (Inode k) (int j) = Some (True,
    s\<lparr>inodes := (inodes s)[k := (inodes s ! k)\<lparr>dirContents :=
      take_entry j (dirContents (inodes s ! k))\<rparr>]\<rparr>)"
  using assms
  by (simp add: indexed_remove_from_direntry_def last_walk_packed Let_def take_entry_def
      arr_get_def arr_set_def)

lemma length_take_entry [simp]: "length (take_entry j dc) = length dc"
  by (simp add: take_entry_def)

lemma length_put_entry [simp]: "length dc = 30 \<Longrightarrow> length (put_entry k dc) = 30"
  by (simp add: put_entry_free split: option.split)

lemma dir_packed_take: "length dc = 30 \<Longrightarrow> dir_packed (take_entry j dc)"
  by (simp add: take_entry_def dir_packed_def)

lemma set_take_entry:
  assumes "length dc = 30"
  shows "set (take_entry j dc) \<subseteq> insert Null (set dc)"
proof -
  have "dc ! 29 \<in> set dc" using assms by simp
  then have "set (dc[j := dc ! 29]) \<subseteq> set dc"
    using set_update_subset_insert [of dc j "dc ! 29"] by auto
  then show ?thesis
    using set_update_subset_insert [of "dc[j := dc ! 29]" 29 Null]
      set_update_subset_insert [of dc 29 Null]
    by (auto simp: take_entry_def)
qed

lemma no_wild_take: "length dc = 30 \<Longrightarrow> no_wild dc \<Longrightarrow> no_wild (take_entry j dc)"
  using set_take_entry [of dc j] by (fastforce simp: no_wild_def)

text \<open>What removal leaves in each slot.\<close>

lemma take_entry_nth:
  assumes "length dc = 30" and "i < 30" and "j < 30"
  shows "take_entry j dc ! i = (if i = 29 then Null else if i = j then dc ! 29 else dc ! i)"
  using assms by (auto simp: take_entry_def nth_list_update)

lemma used_take_entry:
  assumes "length dc = 30" and "j < 30" and "dc ! j \<noteq> Null"
  shows "used_slots (take_entry j dc) = used_slots dc - {#dc ! j#}"
proof (cases "j = 29")
  case True
  with assms show ?thesis by (simp add: take_entry_def used_slots_def mset_update)
next
  case False
  have "mset ((dc[j := dc ! 29])[29 := Null])
      = add_mset Null (add_mset (dc ! 29) (mset dc - {#dc ! j#}) - {#dc ! 29#})"
    using assms False by (simp add: mset_update)
  then show ?thesis using assms False by (simp add: take_entry_def used_slots_def)
qed

lemma slot_of_Some_iff: "slot_of dc j = Some k \<longleftrightarrow> j < length dc \<and> dc ! j = Inode k"
  by (auto simp: slot_of_def split: fcb_ptr.splits)

lemma entry_slot_of:
  assumes "no_wild dc"
  shows "k \<in># dir_entries dc \<longleftrightarrow> (\<exists>j. slot_of dc j = Some k)"
proof
  assume "k \<in># dir_entries dc"
  then obtain p where "p \<in> set dc" "p \<noteq> Null" "k = ptr_index p"
    by (auto simp: dir_entries_def used_slots_def)
  with assms have "Inode k \<in> set dc" by (auto simp: no_wild_def)
  then show "\<exists>j. slot_of dc j = Some k" by (auto simp: slot_of_Some_iff in_set_conv_nth)
next
  assume "\<exists>j. slot_of dc j = Some k"
  then have "Inode k \<in> set dc" by (metis slot_of_Some_iff nth_mem)
  then have "Inode k \<in># used_slots dc" by (simp add: used_slots_def)
  then show "k \<in># dir_entries dc" unfolding dir_entries_def by force
qed

lemma size_dir_entries: "size (dir_entries dc) = size (used_slots dc)"
  by (simp add: dir_entries_def)

lemma dir_entries_put:
  assumes "length dc = 30" and "size (dir_entries dc) < 30"
  shows "dir_entries (put_entry k dc) = add_mset k (dir_entries dc)"
proof -
  obtain j where "free_slot dc = Some j"
    using assms size_used_full [OF assms(1)] by (cases "free_slot dc") (auto simp: size_dir_entries)
  moreover from this have "j < 30 \<and> dc ! j = Null"
    using assms(1) by (simp add: free_entry.search_Some_iff)
  ultimately show ?thesis
    using assms(1) by (simp add: put_entry_free dir_entries_def used_update_free)
qed

lemma dir_entries_take:
  assumes "length dc = 30" and "slot_of dc j = Some k"
  shows "dir_entries (take_entry j dc) = dir_entries dc - {#k#}"
proof -
  have j: "j < 30" "dc ! j = Inode k" using assms by (simp_all add: slot_of_Some_iff)
  then have "Inode k \<in># used_slots dc" using assms(1) by (force simp: used_slots_def in_set_conv_nth)
  then show ?thesis
    using j assms(1) by (simp add: dir_entries_def used_take_entry image_mset_Diff)
qed

interpretation dir_slots: slot_table put_entry take_entry slot_of dir_entries 30 slots_inv
proof unfold_locales
  show "x \<in># dir_entries t" if "slots_inv t" "slot_of t j = Some x" for t j x
    using that entry_slot_of by (auto simp: slots_inv_def)
  show "\<exists>j. slot_of t j = Some x" if "slots_inv t" "x \<in># dir_entries t" for t x
    using that entry_slot_of by (auto simp: slots_inv_def)
  show "size (dir_entries t) \<le> 30" if "slots_inv t" for t
    using that size_used_le by (auto simp: slots_inv_def size_dir_entries)
  show "dir_entries (put_entry x t) = add_mset x (dir_entries t)"
    if "slots_inv t" "size (dir_entries t) < 30" for x t
    using that dir_entries_put by (auto simp: slots_inv_def)
  show "put_entry x t = t" if "slots_inv t" "size (dir_entries t) = 30" for x t
    using that size_used_full [of t] by (simp add: slots_inv_def size_dir_entries put_entry_free)
  show "dir_entries (take_entry j t) = dir_entries t - {#x#}"
    if "slots_inv t" "slot_of t j = Some x" for t j x
    using that dir_entries_take by (auto simp: slots_inv_def)
  show "slots_inv (put_entry x t)" if "slots_inv t" for x t
    using that by (simp add: slots_inv_def no_wild_put dir_packed_put)
  show "slots_inv (take_entry j t)" if "slots_inv t" "slot_of t j = Some x" for t j x
    using that by (simp add: slots_inv_def no_wild_take dir_packed_take)
qed

section \<open>Well-formed directories\<close>

lemma fcb_ok_slots: "fcb_ok f \<Longrightarrow> slots_inv (dirContents f)"
  by (auto simp: fcb_ok_def fcb_sized_def dir_ok_def slots_inv_def no_wild_def list_all_iff ptr_ok_def)

lemma ptr_ok_put:
  "length dc = 30 \<Longrightarrow> list_all ptr_ok dc \<Longrightarrow> k < 100 \<Longrightarrow> list_all ptr_ok (put_entry k dc)"
  by (auto simp: put_entry_free list_all_iff ptr_ok_def split: option.split
      dest!: set_update_subset_insert [THEN subsetD])

lemma ptr_ok_take:
  "length dc = 30 \<Longrightarrow> list_all ptr_ok dc \<Longrightarrow> list_all ptr_ok (take_entry j dc)"
  using set_take_entry [of dc j] by (fastforce simp: list_all_iff ptr_ok_def)

lemma fcb_ok_put: "fcb_ok f \<Longrightarrow> k < 100 \<Longrightarrow> fcb_ok (f\<lparr>dirContents := put_entry k (dirContents f)\<rparr>)"
  by (simp add: fcb_ok_def fcb_sized_def names_ok_def dir_ok_def ptr_ok_put dir_packed_put)

lemma fcb_ok_take: "fcb_ok f \<Longrightarrow> fcb_ok (f\<lparr>dirContents := take_entry j (dirContents f)\<rparr>)"
  by (simp add: fcb_ok_def fcb_sized_def names_ok_def dir_ok_def ptr_ok_take dir_packed_take)

lemma fcb_ok_init: "fcb_ok f \<Longrightarrow> fcb_ok (initDirContents f)"
  by (simp add: fcb_ok_def fcb_sized_def names_ok_def dir_ok_def initDirContents_def
      dir_packed_def list_all_iff ptr_ok_def)

section \<open>Removing by number\<close>

text \<open>The first slot whose inode has the number sought.\<close>

definition numbered_slot :: "fs \<Rightarrow> nat \<Rightarrow> c_short \<Rightarrow> nat \<Rightarrow> bool" where
  "numbered_slot s k w j \<longleftrightarrow>
     (case dirContents (inodes s ! k) ! j of Inode m \<Rightarrow> inumber (inodes s ! m) = w | _ \<Rightarrow> False)"

lemma remove_loop_spec:
  assumes "fs_inv s" and "k < 100" and "c < 100" and "i + n = 30"
  shows "remove_loop s (Inode k) (Inode c) i n = Some (True,
    (case find (numbered_slot s k (inumber (inodes s ! c))) [i..<30] of None \<Rightarrow> s
     | Some j \<Rightarrow> s\<lparr>inodes := (inodes s)[k := (inodes s ! k)\<lparr>dirContents :=
         take_entry j (dirContents (inodes s ! k))\<rparr>]\<rparr>))"
  using assms(4)
proof (induction n arbitrary: i)
  case 0
  then show ?case by simp
next
  case (Suc n)
  then have i: "i < 30" and IH: "Suc i + n = 30" by simp_all
  have f: "fcb_ok (inodes s ! k)" by (rule fs_inv_fcb [OF assms(1,2)])
  have len: "length (inodes s) = 100" by (rule fs_inv_length [OF assms(1)])
  have rm: "indexed_remove_from_direntry s (Inode k) (int i) = Some (True,
      s\<lparr>inodes := (inodes s)[k := (inodes s ! k)\<lparr>dirContents :=
        take_entry i (dirContents (inodes s ! k))\<rparr>]\<rparr>)"
    using f len assms(2) i by (intro indexed_remove_in) (auto simp: fcb_ok_dir_length fcb_ok_def dir_ok_def)
  from fcb_ok_ptr [OF f i] have "ptr_ok (dirContents (inodes s ! k) ! i)" .
  then show ?case
    using Suc.IH [OF IH] i len assms(2,3) rm
    by (auto simp: find_upt_Cons numbered_slot_def ptr_ok_def simp del: upt_Suc)
qed

lemma remove_from_direntry_spec:
  assumes "fs_inv s" and "k < 100" and "c < 100"
  shows "remove_from_direntry s (Inode k) (Inode c) = Some (True,
    (case find (numbered_slot s k (inumber (inodes s ! c))) [0..<30] of None \<Rightarrow> s
     | Some j \<Rightarrow> s\<lparr>inodes := (inodes s)[k := (inodes s ! k)\<lparr>dirContents :=
         take_entry j (dirContents (inodes s ! k))\<rparr>]\<rparr>))"
  using remove_loop_spec [OF assms, of 0 30] by (simp add: remove_from_direntry_def)

text \<open>The invariant across the two operations.\<close>

lemma fs_inv_add:
  assumes "fs_inv s" and "k < 100" and "c < 100"
  shows "\<exists>s'. add_to_direntry s (Inode k) (Inode c) = Some (True, s') \<and> fs_inv s' \<and>
    s' = s\<lparr>inodes := (inodes s)[k := (inodes s ! k)\<lparr>dirContents :=
      put_entry c (dirContents (inodes s ! k))\<rparr>]\<rparr>"
proof -
  have f: "fcb_ok (inodes s ! k)" by (rule fs_inv_fcb [OF assms(1,2)])
  let ?f = "(inodes s ! k)\<lparr>dirContents := put_entry c (dirContents (inodes s ! k))\<rparr>"
  have "fs_inv (s\<lparr>inodes := (inodes s)[k := ?f]\<rparr>)"
    by (rule fs_inv_update [OF assms(1) fcb_ok_put [OF f assms(3)]])
      (use fs_inv_parent [OF assms(1)] assms(2) in auto)
  then show ?thesis
    using add_to_direntry_in [of k s "Inode c"] fcb_ok_dir_length [OF f] fs_inv_length [OF assms(1)] assms(2)
    by (simp add: put_entry_def)
qed

lemma fs_inv_remove:
  assumes "fs_inv s" and "k < 100" and "c < 100"
  shows "\<exists>s'. remove_from_direntry s (Inode k) (Inode c) = Some (True, s') \<and> fs_inv s'"
proof (cases "find (numbered_slot s k (inumber (inodes s ! c))) [0..<30]")
  case None
  then show ?thesis using remove_from_direntry_spec [OF assms] assms(1) by simp
next
  case (Some j)
  have "fs_inv (s\<lparr>inodes := (inodes s)[k := (inodes s ! k)\<lparr>dirContents :=
      take_entry j (dirContents (inodes s ! k))\<rparr>]\<rparr>)"
    by (rule fs_inv_update [OF assms(1) fcb_ok_take [OF fs_inv_fcb [OF assms(1,2)]]])
      (use fs_inv_parent [OF assms(1)] assms(2) in auto)
  with Some show ?thesis using remove_from_direntry_spec [OF assms] by simp
qed

end
