(* ===== verification/Flush.thy ===== *)
theory Flush
  imports Directory
begin

unbundle bit_operations_syntax

text \<open>
  Writing the file system back: \<open>flushAllInodesTodisk\<close> of \<open>src/src/DateiSteuerBlock.c\<close>.
  It is shown to be a sequence of writes to ranges of the disk file that are apart, one for
  the superblock and one per inode, and to leave out the last inode.
\<close>

section \<open>The functions\<close>

text \<open>The memory at \<open>&inodes[i]\<close>, up to the end of the array.\<close>

definition inodes_memory :: "env \<Rightarrow> fs \<Rightarrow> nat \<Rightarrow> byte list" where
  "inodes_memory e s i = array_bytes (fcb_bytes (inodes_addr e)) (drop i (inodes s))"

text \<open>
  The slot counters of the loops: how many inodes the current block holds, and the block.
\<close>

definition next_slot :: "fs \<Rightarrow> int \<times> int \<Rightarrow> int \<times> int" where
  "next_slot s pos =
     (let (currBlockFillNum, currBlock) = pos; fill = currBlockFillNum + 1 in
      if per_block s \<le> fill then (0, currBlock + 1) else (fill, currBlock))"

text \<open>
  The copy the first-time loop initialises. It is a local variable: what is written to the
  disk file is \<open>&inodes[i]\<close>, not the copy.
\<close>

definition initialised_copy :: "env \<Rightarrow> nat \<Rightarrow> fcb \<Rightarrow> fcb" where
  "initialised_copy e i currFcb = currFcb\<lparr>
     fileName := (fileName currFcb)[0 := NUL], fileSize := 0, parentDir := (parentDir currFcb)[0 := NUL],
     inumber := of_nat i, parent_inumber := - 1, fcb_mode := S_IFDIR OR 493,
     fcb_uid := ucast (uid_now e), fcb_time := time_now e,
     dirContents := replicate MAX_FILES_IN_DIR Null\<rparr>"

fun flush_first_loop :: "env \<Rightarrow> fs \<Rightarrow> nat \<Rightarrow> nat \<Rightarrow> int \<times> int \<Rightarrow> fs option" where
  "flush_first_loop e s i 0 pos = Some s"
| "flush_first_loop e s i (Suc n) pos = do {
     f \<leftarrow> arr_get (inodes s) (int i);
     let currFcb = initialised_copy e i f;
     ib \<leftarrow> arr_set (ibmap (sBlock s)) (int i) 0;
     let s1 = s\<lparr>sBlock := (sBlock s)\<lparr>ibmap := ib\<rparr>\<rparr>;
     (r, d) \<leftarrow> block_write_padded e (dev s1) (snd pos) (inodes_memory e s1 i)
       (int sizeof_fcb) (wrap32 (fst pos * int sizeof_fcb));
     flush_first_loop e (s1\<lparr>dev := d\<rparr>) (Suc i) n (next_slot s1 pos) }"

fun flush_loop :: "env \<Rightarrow> fs \<Rightarrow> nat \<Rightarrow> nat \<Rightarrow> int \<times> int \<Rightarrow> fs option" where
  "flush_loop e s i 0 pos = Some s"
| "flush_loop e s i (Suc n) pos = do {
     currFcb \<leftarrow> arr_get (inodes s) (int i);
     (r, d) \<leftarrow> block_write_padded e (dev s) (snd pos) (inodes_memory e s i)
       (int sizeof_fcb) (wrap32 (fst pos * int sizeof_fcb));
     flush_loop e (s\<lparr>dev := d\<rparr>) (Suc i) n (next_slot s pos) }"

text \<open>
  Both loops stop at \<open>endCond-1\<close>. The superblock is written with the size
  \<open>BLOCK_SIZE * inodeStartIndex\<close>, which reads memory behind \<open>sBlockData\<close>.
\<close>

definition flushAllInodesTodisk :: "env \<Rightarrow> bool \<Rightarrow> fs \<Rightarrow> (bool \<times> fs) option" where
  "flushAllInodesTodisk e firstTime s =
     (if firstTime then do {
        limit \<leftarrow> checked_int (n_inodes s - 1);
        s' \<leftarrow> flush_first_loop e s 1 (nat (limit - 1)) (1, start_index s);
        Some (True, s') }
      else do {
        len \<leftarrow> checked_int (int BLOCK_SIZE * start_index s);
        (r, d) \<leftarrow> sBlock_write_padded e (dev s) 0 (superblock_bytes (sBlock s) @ after_sBlock e) len;
        limit \<leftarrow> checked_int (n_inodes s - 1);
        s' \<leftarrow> flush_loop e (s\<lparr>dev := d\<rparr>) 0 (nat limit) (0, start_index s);
        Some (True, s') })"

section \<open>Where the inodes lie in the disk file\<close>

text \<open>Four inodes to a block, from the fourth block on.\<close>

definition slot_offset :: "nat \<Rightarrow> nat" where
  "slot_offset i = (3 + i div 4) * 4096 + (i mod 4) * 840"

definition slot_pos :: "nat \<Rightarrow> int \<times> int" where
  "slot_pos i = (int (i mod 4), int (3 + i div 4))"

lemma slot_offset_step: "slot_offset i + 840 \<le> slot_offset (Suc i)"
proof -
  have "i mod 4 = 3 \<and> Suc i div 4 = Suc (i div 4) \<and> Suc i mod 4 = 0 \<or>
      i mod 4 < 3 \<and> Suc i div 4 = i div 4 \<and> Suc i mod 4 = Suc (i mod 4)" by presburger
  then show ?thesis unfolding slot_offset_def by auto
qed

lemma slot_offset_mono: "i < j \<Longrightarrow> slot_offset i + 840 \<le> slot_offset j"
proof (induction j)
  case 0
  then show ?case by simp
next
  case (Suc j)
  then show ?case using slot_offset_step [of j] by (cases "i = j") auto
qed

lemma slot_offset_start: "12288 \<le> slot_offset i"
  by (simp add: slot_offset_def)

lemma slot_offset_bound: "i < 100 \<Longrightarrow> slot_offset i < 200000"
proof -
  assume "i < 100"
  then have "i div 4 < 25" and "i mod 4 < 4" by presburger+
  moreover have "(3 + a) * 4096 + b * 840 < 200000" if "a < 25" "b < 4" for a b :: nat
    using that by simp
  ultimately show ?thesis unfolding slot_offset_def by blast
qed

lemma next_slot_pos:
  assumes "geometry_ok (sBlock s)"
  shows "next_slot s (slot_pos i) = slot_pos (Suc i)"
proof -
  have per: "per_block s = 4" using assms by (simp add: geometry_ok_def)
  have "i mod 4 = 3 \<and> Suc i div 4 = Suc (i div 4) \<and> Suc i mod 4 = 0 \<or>
      i mod 4 < 3 \<and> Suc i div 4 = i div 4 \<and> Suc i mod 4 = Suc (i mod 4)" by presburger
  then show ?thesis
    unfolding next_slot_def slot_pos_def Let_def per by (auto simp: of_nat_Suc)
qed

lemma block_offset_slot:
  assumes "i < 100"
  shows "block_offset (snd (slot_pos i)) (wrap32 (fst (slot_pos i) * 840)) = Some (int (slot_offset i))"
proof -
  have b: "i div 4 < 25" and m: "i mod 4 < 4" using assms by presburger+
  have "wrap32 (int (i mod 4) * 840) = int (i mod 4 * 840)"
    using m by (subst wrap32_id) (simp_all add: int_ok_def)
  moreover have "block_offset (int (3 + i div 4)) (int (i mod 4 * 840))
      = Some (int ((3 + i div 4) * 4096 + i mod 4 * 840))"
    by (rule block_offset_nat) (use b m in \<open>simp_all add: int_ok_def\<close>)
  ultimately show ?thesis by (simp add: slot_pos_def slot_offset_def)
qed

text \<open>The writes of the inodes \<open>lo\<close> up to \<open>hi\<close>.\<close>

definition inode_writes :: "env \<Rightarrow> fcb list \<Rightarrow> nat \<Rightarrow> nat \<Rightarrow> (nat \<times> byte list) list" where
  "inode_writes e fcbs lo hi =
     map (\<lambda>i. (slot_offset i, fcb_bytes (inodes_addr e) (fcbs ! i))) [lo..<hi]"

lemma inode_writes_Cons:
  "lo < hi \<Longrightarrow> inode_writes e fcbs lo hi =
    (slot_offset lo, fcb_bytes (inodes_addr e) (fcbs ! lo)) # inode_writes e fcbs (Suc lo) hi"
  by (simp add: inode_writes_def upt_conv_Cons)

lemma inode_writes_apart:
  assumes "list_all fcb_ok fcbs" and "hi \<le> length fcbs"
  shows "sorted_wrt apart (inode_writes e fcbs lo hi)"
proof -
  have "apart (slot_offset i, fcb_bytes a (fcbs ! i)) (slot_offset j, fcb_bytes a (fcbs ! j))"
    if "i < j" "j < hi" for i j a
  proof -
    have "length (fcb_bytes a (fcbs ! i)) = 840"
      using assms that by (intro length_fcb_bytes fcb_ok_typed) (simp add: list_all_length)
    then show ?thesis using slot_offset_mono [OF that(1)] by (simp add: apart_def)
  qed
  then show ?thesis
    by (simp add: inode_writes_def sorted_wrt_map sorted_wrt_iff_nth_less)
qed

section \<open>The loops as sequences of writes\<close>

lemma inodes_memory_Cons:
  "i < length (inodes s) \<Longrightarrow> inodes_memory e s i =
    fcb_bytes (inodes_addr e) (inodes s ! i) @ inodes_memory e s (Suc i)"
  by (simp add: inodes_memory_def Cons_nth_drop_Suc [symmetric] array_bytes_Cons)

lemma write_inode_run:
  assumes "dev_ok e (dev s)" and "i < 100" and "length (inodes s) = 100" and "fcb_ok (inodes s ! i)"
  shows "block_write_padded e (dev s) (snd (slot_pos i)) (inodes_memory e s i) (int sizeof_fcb)
      (wrap32 (fst (slot_pos i) * int sizeof_fcb))
    = Some (840, (dev s)\<lparr>disk :=
        file_write (slot_offset i) (fcb_bytes (inodes_addr e) (inodes s ! i)) (disk (dev s))\<rparr>)"
proof -
  let ?b = "fcb_bytes (inodes_addr e) (inodes s ! i)"
  have l: "length ?b = 840" using assms(4) by (intro length_fcb_bytes fcb_ok_typed)
  have "block_offset (snd (slot_pos i)) (wrap32 (fst (slot_pos i) * int sizeof_fcb))
      = Some (int (slot_offset i))"
    using block_offset_slot [OF assms(2)] by simp
  from block_write_padded_run [OF assms(1) this, of ?b "inodes_memory e s (Suc i)"] show ?thesis
    using assms(2,3) by (simp add: l inodes_memory_Cons)
qed

lemma flush_loop_run:
  assumes "geometry_ok (sBlock s)" and "list_all fcb_ok (inodes s)" and "length (inodes s) = 100"
    and "dev_ok e (dev s)" and "i + n \<le> 100"
  shows "flush_loop e s i n (slot_pos i) = Some (s\<lparr>dev := (dev s)\<lparr>disk :=
    write_all file_write (inode_writes e (inodes s) i (i + n)) (disk (dev s))\<rparr>\<rparr>)"
  using assms
proof (induction n arbitrary: i s)
  case 0
  then show ?case by (simp add: inode_writes_def)
next
  case (Suc n)
  have i: "i < 100" using Suc.prems(5) by simp
  let ?b = "fcb_bytes (inodes_addr e) (inodes s ! i)"
  let ?s = "s\<lparr>dev := (dev s)\<lparr>disk := file_write (slot_offset i) ?b (disk (dev s))\<rparr>\<rparr>"
  have "fcb_ok (inodes s ! i)" using Suc.prems(2,3) i by (simp add: list_all_length)
  note w = write_inode_run [OF Suc.prems(4) i Suc.prems(3) this]
  have "flush_loop e s i (Suc n) (slot_pos i) = flush_loop e ?s (Suc i) n (slot_pos (Suc i))"
    using w i Suc.prems(1,3) by (simp add: next_slot_pos)
  also have "\<dots> = Some (?s\<lparr>dev := (dev ?s)\<lparr>disk :=
      write_all file_write (inode_writes e (inodes ?s) (Suc i) (Suc i + n)) (disk (dev ?s))\<rparr>\<rparr>)"
    using Suc.prems by (intro Suc.IH) (simp_all add: dev_ok_def)
  finally show ?case by (simp add: inode_writes_Cons write_all_Cons)
qed

text \<open>The first-time loop also marks each of the inodes free.\<close>

definition clear_range :: "nat \<Rightarrow> nat \<Rightarrow> byte list \<Rightarrow> byte list" where
  "clear_range lo hi bm = map (\<lambda>j. if lo \<le> j \<and> j < hi then 0 else bm ! j) [0..<length bm]"

lemma length_clear_range [simp]: "length (clear_range lo hi bm) = length bm"
  by (simp add: clear_range_def)

lemma clear_range_empty: "clear_range lo lo bm = bm"
  by (rule nth_equalityI) (auto simp: clear_range_def)

lemma clear_range_step:
  "lo < hi \<Longrightarrow> lo < length bm \<Longrightarrow> clear_range (Suc lo) hi (bm[lo := 0]) = clear_range lo hi bm"
  by (rule nth_equalityI) (auto simp: clear_range_def nth_list_update)

lemma flush_first_loop_run:
  assumes "geometry_ok (sBlock s)" and "list_all fcb_ok (inodes s)" and "length (inodes s) = 100"
    and "dev_ok e (dev s)" and "i + n \<le> 100"
  shows "flush_first_loop e s i n (slot_pos i) = Some (s\<lparr>
    sBlock := (sBlock s)\<lparr>ibmap := clear_range i (i + n) (ibmap (sBlock s))\<rparr>,
    dev := (dev s)\<lparr>disk :=
      write_all file_write (inode_writes e (inodes s) i (i + n)) (disk (dev s))\<rparr>\<rparr>)"
  using assms
proof (induction n arbitrary: i s)
  case 0
  then show ?case by (simp add: inode_writes_def clear_range_empty)
next
  case (Suc n)
  have i: "i < 100" using Suc.prems(5) by simp
  have bm: "i < length (ibmap (sBlock s))"
    using Suc.prems(1) i by (simp add: geometry_ok_def superblock_typed_def)
  let ?b = "fcb_bytes (inodes_addr e) (inodes s ! i)"
  let ?s1 = "s\<lparr>sBlock := (sBlock s)\<lparr>ibmap := (ibmap (sBlock s))[i := 0]\<rparr>\<rparr>"
  let ?s = "?s1\<lparr>dev := (dev s)\<lparr>disk := file_write (slot_offset i) ?b (disk (dev s))\<rparr>\<rparr>"
  have g: "geometry_ok (sBlock ?s1)"
    using Suc.prems(1) by (simp add: geometry_ok_def superblock_typed_def)
  have "fcb_ok (inodes s ! i)" using Suc.prems(2,3) i by (simp add: list_all_length)
  then have w: "block_write_padded e (dev ?s1) (snd (slot_pos i)) (inodes_memory e ?s1 i)
      (int sizeof_fcb) (wrap32 (fst (slot_pos i) * int sizeof_fcb)) = Some (840, dev ?s)"
    using write_inode_run [of e ?s1 i] Suc.prems i by simp
  have "flush_first_loop e s i (Suc n) (slot_pos i) = flush_first_loop e ?s (Suc i) n (slot_pos (Suc i))"
    using w i bm Suc.prems(3) next_slot_pos [OF g] by (simp add: Let_def)
  also have "\<dots> = Some (?s\<lparr>
      sBlock := (sBlock ?s)\<lparr>ibmap := clear_range (Suc i) (Suc i + n) (ibmap (sBlock ?s))\<rparr>,
      dev := (dev ?s)\<lparr>disk :=
        write_all file_write (inode_writes e (inodes ?s) (Suc i) (Suc i + n)) (disk (dev ?s))\<rparr>\<rparr>)"
    using Suc.prems g by (intro Suc.IH) (simp_all add: dev_ok_def)
  finally show ?case using bm by (simp add: inode_writes_Cons write_all_Cons clear_range_step)
qed

section \<open>The flush as a whole\<close>

text \<open>The image of the superblock: the structure and the memory behind it, three blocks.\<close>

definition superblock_image :: "env \<Rightarrow> superblock \<Rightarrow> byte list" where
  "superblock_image e sb = take 12288 (superblock_bytes sb @ after_sBlock e)"

lemma length_superblock_image:
  "superblock_typed sb \<Longrightarrow> 544 \<le> length (after_sBlock e) \<Longrightarrow> length (superblock_image e sb) = 12288"
  by (simp add: superblock_image_def length_superblock_bytes)

lemma superblock_image_head:
  "superblock_typed sb \<Longrightarrow> take 11744 (superblock_image e sb) = superblock_bytes sb"
  by (simp add: superblock_image_def length_superblock_bytes min_def)

definition flush_writes :: "env \<Rightarrow> fs \<Rightarrow> (nat \<times> byte list) list" where
  "flush_writes e s = (0, superblock_image e (sBlock s)) # inode_writes e (inodes s) 0 (nat (n_inodes s - 1))"

definition flushed :: "env \<Rightarrow> fs \<Rightarrow> fs" where
  "flushed e s = s\<lparr>dev := (dev s)\<lparr>disk := write_all file_write (flush_writes e s) (disk (dev s))\<rparr>\<rparr>"

lemma flushed_frame [simp]:
  "sBlock (flushed e s) = sBlock s" "inodes (flushed e s) = inodes s"
  "diskSize (flushed e s) = diskSize s" "errno (flushed e s) = errno s"
  "diskfile (dev (flushed e s)) = diskfile (dev s)" "fd_open (dev (flushed e s)) = fd_open (dev s)"
  by (simp_all add: flushed_def)

lemma fs_inv_flushed [simp]: "fs_inv (flushed e s) = fs_inv s"
  by (simp add: flushed_def)

lemma dev_ok_flushed [simp]: "dev_ok e (dev (flushed e' s)) = dev_ok e (dev s)"
  by (simp add: dev_ok_def)

lemma flush_run:
  assumes "fs_inv s" and "env_ok e" and "dev_ok e (dev s)"
  shows "flushAllInodesTodisk e False s = Some (True, flushed e s)"
proof -
  have g: "geometry_ok (sBlock s)" and ok: "list_all fcb_ok (inodes s)"
    using assms(1) by (simp_all add: fs_inv_def)
  then have typed: "superblock_typed (sBlock s)" and start: "start_index s = 3"
    by (simp_all add: geometry_ok_def)
  let ?img = "superblock_image e (sBlock s)"
  let ?rest = "drop 12288 (superblock_bytes (sBlock s) @ after_sBlock e)"
  have l: "length ?img = 12288"
    using typed assms(2) by (simp add: length_superblock_image env_ok_def)
  then have ne: "?img \<noteq> []" by auto
  have "superblock_bytes (sBlock s) @ after_sBlock e = ?img @ ?rest"
    by (simp only: superblock_image_def append_take_drop_id)
  then have w: "sBlock_write_padded e (dev s) 0 (superblock_bytes (sBlock s) @ after_sBlock e) 12288
      = Some (12288, (dev s)\<lparr>disk := file_write 0 ?img (disk (dev s))\<rparr>)"
    using sBlock_write_padded_run [OF assms(3) ne, of 0 ?rest] l by simp
  let ?s = "s\<lparr>dev := (dev s)\<lparr>disk := file_write 0 ?img (disk (dev s))\<rparr>\<rparr>"
  have n: "0 + nat (n_inodes s - 1) \<le> 100" using fs_inv_count [OF assms(1)] by linarith
  have "flush_loop e ?s 0 (nat (n_inodes s - 1)) (slot_pos 0) = Some (?s\<lparr>dev := (dev ?s)\<lparr>disk :=
      write_all file_write (inode_writes e (inodes ?s) 0 (0 + nat (n_inodes s - 1))) (disk (dev ?s))\<rparr>\<rparr>)"
    using assms(3) fs_inv_length [OF assms(1)] g ok n
    by (intro flush_loop_run) (simp_all add: dev_ok_def)
  moreover have "checked_int (n_inodes s - 1) = Some (n_inodes s - 1)"
    using fs_inv_n [OF assms(1)] by (intro checked_int_Some) (simp add: int_ok_def)
  moreover have "checked_int 12288 = Some 12288" by (simp add: checked_int_def int_ok_def)
  ultimately show ?thesis
    using w start
    by (simp add: flushAllInodesTodisk_def slot_pos_def flushed_def flush_writes_def write_all_Cons)
qed

lemma flush_writes_apart:
  assumes "fs_inv s" and "env_ok e"
  shows "sorted_wrt apart (flush_writes e s)"
proof -
  have ok: "list_all fcb_ok (inodes s)" using assms(1) by (simp add: fs_inv_def)
  have typed: "superblock_typed (sBlock s)" using assms(1) by (simp add: fs_inv_def geometry_ok_def)
  have "nat (n_inodes s - 1) \<le> length (inodes s)"
    using fs_inv_count [OF assms(1)] fs_inv_length [OF assms(1)] by linarith
  moreover have "apart (0, superblock_image e (sBlock s)) w"
    if "w \<in> set (inode_writes e (inodes s) 0 (nat (n_inodes s - 1)))" for w
    using that slot_offset_start length_superblock_image [OF typed] assms(2)
    by (auto simp: inode_writes_def apart_def env_ok_def)
  ultimately show ?thesis
    using inode_writes_apart [OF ok] by (simp add: flush_writes_def)
qed

section \<open>What is found on the disk file after a flush\<close>

lemma flushed_superblock:
  assumes "fs_inv s" and "env_ok e"
  shows "file_read 11744 0 (disk (dev (flushed e s))) = superblock_bytes (sBlock s)"
proof -
  have typed: "superblock_typed (sBlock s)" using assms(1) by (simp add: fs_inv_def geometry_ok_def)
  let ?img = "superblock_image e (sBlock s)"
  have l: "length ?img = 12288"
    using typed assms(2) by (simp add: length_superblock_image env_ok_def)
  then have "file_read (length ?img) 0 (write_all file_write (flush_writes e s) (disk (dev s))) = ?img"
    by (intro disk_store.rd_write_all_same flush_writes_apart assms) (auto simp: flush_writes_def)
  then have "take 11744 (take 12288 (disk (dev (flushed e s)))) = take 11744 ?img"
    by (simp only: l flushed_def file_read_def) (simp add: file_read_def)
  then show ?thesis using superblock_image_head [OF typed] by (simp add: file_read_def)
qed

lemma flushed_inode:
  assumes "fs_inv s" and "env_ok e" and "int i < n_inodes s - 1"
  shows "file_read 840 (slot_offset i) (disk (dev (flushed e s)))
    = fcb_bytes (inodes_addr e) (inodes s ! i)"
proof -
  have "i < 100" using assms(3) fs_inv_count [OF assms(1)] by linarith
  then have "fcb_ok (inodes s ! i)" by (rule fs_inv_fcb [OF assms(1)])
  then have l: "length (fcb_bytes (inodes_addr e) (inodes s ! i)) = 840"
    by (intro length_fcb_bytes fcb_ok_typed)
  have "i < nat (n_inodes s - 1)" using assms(3) by linarith
  then have "(slot_offset i, fcb_bytes (inodes_addr e) (inodes s ! i)) \<in> set (flush_writes e s)"
    by (auto simp: flush_writes_def inode_writes_def)
  moreover have "fcb_bytes (inodes_addr e) (inodes s ! i) \<noteq> []" using l by force
  ultimately have "file_read (length (fcb_bytes (inodes_addr e) (inodes s ! i))) (slot_offset i)
      (disk (dev (flushed e s))) = fcb_bytes (inodes_addr e) (inodes s ! i)"
    unfolding flushed_def
    by (simp, intro disk_store.rd_write_all_same flush_writes_apart assms(1,2))
  then show ?thesis by (simp only: l)
qed

text \<open>The part of the file from the last inode's slot on is not touched.\<close>

lemma flushed_beyond:
  assumes "fs_inv s" and "env_ok e" and "n_inodes s - 1 \<le> int i" and "k + n \<le> length (disk (dev s))"
    and "slot_offset i \<le> k"
  shows "file_read n k (disk (dev (flushed e s))) = file_read n k (disk (dev s))"
proof -
  have "fst w + length (snd w) \<le> k" if "w \<in> set (flush_writes e s)" for w
  proof (cases "w = (0, superblock_image e (sBlock s))")
    case True
    then have "length (snd w) \<le> 12288" by (simp add: superblock_image_def)
    then show ?thesis using True slot_offset_start [of i] assms(5) by simp
  next
    case False
    with that have "w \<in> set (inode_writes e (inodes s) 0 (nat (n_inodes s - 1)))"
      by (simp add: flush_writes_def)
    then obtain j where j: "j < nat (n_inodes s - 1)"
      "w = (slot_offset j, fcb_bytes (inodes_addr e) (inodes s ! j))"
      by (auto simp: inode_writes_def)
    have "j < 100" using j(1) fs_inv_count [OF assms(1)] by linarith
    then have "length (snd w) = 840"
      using j(2) fs_inv_fcb [OF assms(1)] by (simp add: length_fcb_bytes fcb_ok_typed)
    moreover have "slot_offset j + 840 \<le> slot_offset i"
      using j(1) assms(3) by (intro slot_offset_mono) linarith
    ultimately show ?thesis using j(2) assms(5) by simp
  qed
  then show ?thesis
    using assms(4) by (simp add: flushed_def) (intro disk_store.rd_write_all_other, auto)
qed

lemma flushed_extent:
  assumes "fs_inv s" and "env_ok e"
  shows "12288 \<le> length (disk (dev (flushed e s)))"
proof -
  have typed: "superblock_typed (sBlock s)" using assms(1) by (simp add: fs_inv_def geometry_ok_def)
  let ?img = "superblock_image e (sBlock s)"
  have l: "length ?img = 12288"
    using typed assms(2) by (simp add: length_superblock_image env_ok_def)
  then have "12288 \<le> length (file_write 0 ?img (disk (dev s)))"
    using disk_store.extent_reaches [of ?img 0 "disk (dev s)"] by fastforce
  also have "\<dots> \<le> length (disk (dev (flushed e s)))"
    by (simp add: flushed_def flush_writes_def write_all_Cons disk_store.extent_write_all)
  finally show ?thesis .
qed

end
