(* ===== verification/Inode_Ops.thy ===== *)
theory Inode_Ops
  imports Lookup Flush
begin

text \<open>
  Creating and removing inodes (\<open>create_inode\<close>, \<open>remove_inode\<close> of
  \<open>src/src/DateiSteuerBlock.c\<close>). On a well-formed state each is a closed update of the
  state followed by a flush; the lemmas give the update, its effect on the invariant, and
  which inodes it leaves alone.
\<close>

section \<open>The functions\<close>

text \<open>
  The parent of a new inode: the root, or what the path up to the last slash names; null
  if a heap request is refused.
\<close>

definition create_parent :: "env \<Rightarrow> fs \<Rightarrow> string \<Rightarrow> string \<Rightarrow> fcb_ptr option" where
  "create_parent e s path parentName =
     (if parentName = ''/'' then findRootOrDieTrying s
      else if alloc_ok e (length path)
      then findFileOrDir e s (take (length path - length (relativeName path) - 1) path)
      else Some Null)"

text \<open>
  The assignments to \<open>inodes[i]\<close>, in their order: what \<open>parent\<close> points to is read twice,
  and is \<open>inodes[i]\<close> itself when the two pointers coincide.
\<close>

definition fill_inode :: "env \<Rightarrow> fs \<Rightarrow> string \<Rightarrow> string \<Rightarrow> c_int \<Rightarrow> fcb_ptr \<Rightarrow> nat \<Rightarrow> fs option" where
  "fill_inode e s path parentName mode parent i = do {
     f \<leftarrow> arr_get (inodes s) (int i);
     name \<leftarrow> strcpy (fileName f) (relativeName path);
     dir \<leftarrow> strcpy (parentDir f) parentName;
     s1 \<leftarrow> store s (Inode i) (f\<lparr>fileName := name, parentDir := dir\<rparr>);
     p \<leftarrow> deref s1 parent;
     f1 \<leftarrow> deref s1 (Inode i);
     s2 \<leftarrow> store s1 (Inode i) (f1\<lparr>parent_inumber := inumber p, fcb_mode := ucast mode,
       fcb_uid := ucast (uid_now e), fcb_time := time_now e, inumber := of_nat i\<rparr>);
     p' \<leftarrow> deref s2 parent;
     f2 \<leftarrow> deref s2 (Inode i);
     s3 \<leftarrow> store s2 (Inode i) (f2\<lparr>parent_inumber := inumber p'\<rparr>);
     ib \<leftarrow> arr_set (ibmap (sBlock s3)) (int i) 1;
     Some (s3\<lparr>sBlock := (sBlock s3)\<lparr>ibmap := ib\<rparr>\<rparr>) }"

text \<open>The body of the loop of \<open>create_inode\<close> at a free index; it always returns.\<close>

definition create_at :: "env \<Rightarrow> fs \<Rightarrow> string \<Rightarrow> c_int \<Rightarrow> nat \<Rightarrow> (fcb_ptr \<times> fs) option" where
  "create_at e s path mode i =
     (case getRelativeParentName e (Some path) of
        None \<Rightarrow> Some (Null, s)
      | Some parentName \<Rightarrow> do {
          parent \<leftarrow> create_parent e s path parentName;
          (if parent = Null then Some (Null, s)
           else do {
             child \<leftarrow> inode_address s (int i);
             (added, s1) \<leftarrow> add_to_direntry s parent child;
             (if \<not> added then Some (Null, s1)
              else do {
                s2 \<leftarrow> fill_inode e s1 path parentName mode parent i;
                (ok, s3) \<leftarrow> flushAllInodesTodisk e False s2;
                Some (child, s3) }) }) })"

fun create_inode_loop :: "env \<Rightarrow> fs \<Rightarrow> string \<Rightarrow> c_int \<Rightarrow> nat \<Rightarrow> nat \<Rightarrow> (fcb_ptr \<times> fs) option" where
  "create_inode_loop e s path mode i 0 = Some (Null, s)"
| "create_inode_loop e s path mode i (Suc n) = do {
     b \<leftarrow> arr_get (ibmap (sBlock s)) (int i);
     (if b \<noteq> 1 then create_at e s path mode i
      else create_inode_loop e s path mode (Suc i) n) }"

definition create_inode :: "env \<Rightarrow> fs \<Rightarrow> string \<Rightarrow> c_int \<Rightarrow> (fcb_ptr \<times> fs) option" where
  "create_inode e s path mode = create_inode_loop e s path mode 1 (nat (n_inodes s - 1))"

definition remove_inode :: "env \<Rightarrow> fs \<Rightarrow> string \<Rightarrow> (bool \<times> fs) option" where
  "remove_inode e s filePath = do {
     f \<leftarrow> findFileOrDir e s filePath;
     (if f \<noteq> Null then do {
        p \<leftarrow> getParentFcb s f;
        (if p \<noteq> Null then do {
           (removed, s1) \<leftarrow> remove_from_direntry s p f;
           (if removed then do {
              g \<leftarrow> deref s1 f;
              ib \<leftarrow> arr_set (ibmap (sBlock s1)) (sint (inumber g)) 0;
              (ok, s2) \<leftarrow> flushAllInodesTodisk e False (s1\<lparr>sBlock := (sBlock s1)\<lparr>ibmap := ib\<rparr>\<rparr>);
              Some (True, s2) }
            else Some (False, s1)) }
         else Some (False, s)) }
      else Some (False, s)) }"

section \<open>The free index\<close>

lemma create_inode_loop_spec:
  assumes "i + n \<le> length (ibmap (sBlock s))"
  shows "create_inode_loop e s path mode i n =
    (case find (\<lambda>j. ibmap (sBlock s) ! j \<noteq> 1) [i..<i + n] of
       None \<Rightarrow> Some (Null, s) | Some j \<Rightarrow> create_at e s path mode j)"
  using assms
proof (induction n arbitrary: i)
  case 0
  then show ?case by simp
next
  case (Suc n)
  then show ?case by (simp add: find_upt_Cons del: upt_Suc)
qed

text \<open>The index \<open>create_inode\<close> takes, if there is one.\<close>

definition create_index :: "superblock \<Rightarrow> nat option" where
  "create_index sb = find (\<lambda>j. ibmap sb ! j \<noteq> 1) [1..<nat (sint (numInodes sb))]"

interpretation create_slot: first_match
  "\<lambda>sb i. ibmap sb ! i \<noteq> 1" 1 "\<lambda>sb. nat (sint (numInodes sb))" "\<lambda>sb. True" create_index
  by unfold_locales (auto simp: create_index_def find_upt_Some_iff find_upt_None_iff)

lemma create_inode_at:
  assumes "fs_inv s"
  shows "create_inode e s path mode =
    (case create_index (sBlock s) of None \<Rightarrow> Some (Null, s) | Some i \<Rightarrow> create_at e s path mode i)"
proof -
  have "length (ibmap (sBlock s)) = 5859"
    using assms by (simp add: fs_inv_def geometry_ok_def superblock_typed_def)
  then have "1 + nat (n_inodes s - 1) \<le> length (ibmap (sBlock s))"
    using fs_inv_count [OF assms] by linarith
  moreover have "[1..<1 + nat (n_inodes s - 1)] = [1..<nat (n_inodes s)]"
    by (cases "1 \<le> n_inodes s") (simp_all add: nat_diff_distrib)
  ultimately show ?thesis
    using create_inode_loop_spec [of 1 "nat (n_inodes s - 1)" s]
    by (simp add: create_inode_def create_index_def)
qed

lemma create_index_bound:
  assumes "fs_inv s" and "create_index (sBlock s) = Some i"
  shows "0 < i \<and> i < 100 \<and> int i < n_inodes s \<and> ibmap (sBlock s) ! i \<noteq> 1"
proof -
  have "1 \<le> i \<and> i < nat (n_inodes s) \<and> ibmap (sBlock s) ! i \<noteq> 1"
    using assms(2) by (simp add: create_slot.search_Some_iff)
  then show ?thesis using fs_inv_count [OF assms(1)] by linarith
qed

text \<open>The index in the words of the bitmap.\<close>

lemma create_index_least:
  "0 < i \<Longrightarrow> int i < n_inodes s \<Longrightarrow> ibmap (sBlock s) ! i \<noteq> 1 \<Longrightarrow>
   (\<forall>j. 0 < j \<and> j < i \<longrightarrow> ibmap (sBlock s) ! j = 1) \<Longrightarrow> create_index (sBlock s) = Some i"
  by (auto simp: create_index_def find_upt_Some_iff Suc_le_eq)

lemma create_index_none:
  "(\<forall>j. 0 < j \<and> int j < n_inodes s \<longrightarrow> ibmap (sBlock s) ! j = 1) \<Longrightarrow> create_index (sBlock s) = None"
  by (auto simp: create_index_def find_upt_None_iff Suc_le_eq)

text \<open>How many inodes can still be created.\<close>

definition free_count :: "superblock \<Rightarrow> nat" where
  "free_count sb = length (filter (\<lambda>i. ibmap sb ! i \<noteq> 1) [1..<nat (sint (numInodes sb))])"

lemma free_count_take:
  assumes "create_index sb = Some i" and "i < length (ibmap sb)"
  shows "Suc (free_count (sb\<lparr>ibmap := (ibmap sb)[i := 1]\<rparr>)) = free_count sb"
proof -
  let ?n = "nat (sint (numInodes sb))"
  have i: "1 \<le> i" "i < ?n" "ibmap sb ! i \<noteq> 1"
    using assms(1) by (simp_all add: create_slot.search_Some_iff)
  then have "[1..<?n] = [1..<i] @ i # [Suc i..<?n]"
    using upt_add_eq_append [of 1 i "?n - i"] by (simp add: upt_conv_Cons)
  moreover have "filter (\<lambda>j. (ibmap sb)[i := 1] ! j \<noteq> 1) [1..<i] = filter (\<lambda>j. ibmap sb ! j \<noteq> 1) [1..<i]"
    and "filter (\<lambda>j. (ibmap sb)[i := 1] ! j \<noteq> 1) [Suc i..<?n] = filter (\<lambda>j. ibmap sb ! j \<noteq> 1) [Suc i..<?n]"
    by (auto intro!: filter_cong)
  ultimately show ?thesis using i assms(2) by (simp add: free_count_def)
qed

lemma free_count_zero_iff: "free_count sb = 0 \<longleftrightarrow> create_index sb = None"
  by (auto simp: free_count_def create_index_def find_None_iff filter_empty_conv)

section \<open>What creation does\<close>

text \<open>The new inode over what the array held at its index.\<close>

definition new_fcb :: "env \<Rightarrow> fcb \<Rightarrow> string \<Rightarrow> string \<Rightarrow> c_int \<Rightarrow> c_short \<Rightarrow> nat \<Rightarrow> fcb" where
  "new_fcb e f rel par mode pn i = f\<lparr>
     fileName := rel @ NUL # drop (Suc (length rel)) (fileName f),
     parentDir := par @ NUL # drop (Suc (length par)) (parentDir f),
     fcb_mode := ucast mode, fcb_uid := ucast (uid_now e), fcb_time := time_now e,
     inumber := of_nat i, parent_inumber := pn\<rparr>"

definition link_inodes :: "fcb list \<Rightarrow> nat \<Rightarrow> nat \<Rightarrow> fcb list" where
  "link_inodes fcbs k i = fcbs[k := (fcbs ! k)\<lparr>dirContents := put_entry i (dirContents (fcbs ! k))\<rparr>]"

definition parent_number :: "fcb list \<Rightarrow> nat \<Rightarrow> nat \<Rightarrow> c_short" where
  "parent_number fcbs k i = (if k = i then of_nat i else inumber (fcbs ! k))"

definition created :: "env \<Rightarrow> fs \<Rightarrow> string \<Rightarrow> string \<Rightarrow> c_int \<Rightarrow> nat \<Rightarrow> nat \<Rightarrow> fs" where
  "created e s rel par mode k i = s\<lparr>
     inodes := (link_inodes (inodes s) k i)
       [i := new_fcb e (link_inodes (inodes s) k i ! i) rel par mode (parent_number (inodes s) k i) i],
     sBlock := (sBlock s)\<lparr>ibmap := (ibmap (sBlock s))[i := 1]\<rparr>\<rparr>"

lemma fill_inode_run:
  assumes "i < length (inodes s)" and "k < length (inodes s)"
    and "i < length (ibmap (sBlock s))" and "length (relativeName path) < length (fileName (inodes s ! i))"
    and "length par < length (parentDir (inodes s ! i))"
  shows "fill_inode e s path par mode (Inode k) i = Some (s\<lparr>
    inodes := (inodes s)[i := new_fcb e (inodes s ! i) (relativeName path) par mode
      (parent_number (inodes s) k i) i],
    sBlock := (sBlock s)\<lparr>ibmap := (ibmap (sBlock s))[i := 1]\<rparr>\<rparr>)"
  using assms by (simp add: fill_inode_def new_fcb_def parent_number_def)

lemma sint_of_nat_short: "i < 100 \<Longrightarrow> sint (of_nat i :: c_short) = int i"
  by (simp add: signed_of_nat signed_take_bit_int_eq_self)

lemma number_ok_of_nat: "i < 100 \<Longrightarrow> number_ok (of_nat i)"
  by (simp add: number_ok_def sint_of_nat_short)

lemma new_fcb_ok:
  assumes "fcb_ok f" and "cstring rel" and "cstring par" and "length rel < 256" and "length par < 256"
    and "i < 100"
  shows "fcb_ok (new_fcb e f rel par mode pn i)"
  using assms number_ok_of_nat [OF assms(6)]
  by (simp add: new_fcb_def fcb_ok_def fcb_sized_def names_ok_def dir_ok_def cstr_append_NUL)

lemma new_fcb_names:
  "cstring rel \<Longrightarrow> cstring par \<Longrightarrow>
   name_of (new_fcb e f rel par mode pn i) = rel \<and> parent_name_of (new_fcb e f rel par mode pn i) = par"
  by (simp add: name_of_def parent_name_of_def new_fcb_def cstr_append_NUL)

lemma link_inodes_ok:
  assumes "fs_inv s" and "k < 100" and "i < 100"
  shows "fs_inv (s\<lparr>inodes := link_inodes (inodes s) k i\<rparr>)"
  using fs_inv_add [OF assms] by (auto simp: link_inodes_def)

lemma length_link_inodes [simp]: "length (link_inodes fcbs k i) = length fcbs"
  by (simp add: link_inodes_def)

lemma link_inodes_names:
  "fileName (link_inodes fcbs k i ! j) = fileName (fcbs ! j)"
  "parentDir (link_inodes fcbs k i ! j) = parentDir (fcbs ! j)"
  "inumber (link_inodes fcbs k i ! j) = inumber (fcbs ! j)"
  "parent_inumber (link_inodes fcbs k i ! j) = parent_inumber (fcbs ! j)"
  by (cases "k < length fcbs"; cases "j = k"; simp add: link_inodes_def list_update_beyond)+

lemma parent_number_link [simp]: "parent_number (link_inodes fcbs k i) = parent_number fcbs"
  by (simp add: parent_number_def link_inodes_names fun_eq_iff)

lemma created_inv:
  assumes "fs_inv s" and "k < 100" and "0 < i" and "i < 100" and "cstring rel" and "cstring par"
    and "length rel < 256" and "length par < 256"
  shows "fs_inv (created e s rel par mode k i)"
proof -
  let ?l = "s\<lparr>inodes := link_inodes (inodes s) k i\<rparr>"
  have l: "fs_inv ?l" by (rule link_inodes_ok [OF assms(1,2,4)])
  have "fcb_ok (link_inodes (inodes s) k i ! i)" using fs_inv_fcb [OF l assms(4)] by simp
  then have "fcb_ok (new_fcb e (link_inodes (inodes s) k i ! i) rel par mode (parent_number (inodes s) k i) i)"
    using assms by (intro new_fcb_ok)
  moreover have "number_ok (parent_number (inodes s) k i)"
    using fs_inv_fcb [OF assms(1,2)] number_ok_of_nat [OF assms(4)]
    by (simp add: parent_number_def fcb_ok_def)
  ultimately have "fs_inv (?l\<lparr>inodes := (inodes ?l)[i :=
      new_fcb e (link_inodes (inodes s) k i ! i) rel par mode (parent_number (inodes s) k i) i]\<rparr>)"
    using assms(3) by (intro fs_inv_update [OF l]) (simp_all add: new_fcb_def)
  from fs_inv_bitmap [OF this, of i 1] show ?thesis by (simp add: created_def)
qed

text \<open>A path whose two last components fit into the name arrays.\<close>

definition path_fits :: "env \<Rightarrow> string \<Rightarrow> bool" where
  "path_fits e p \<longleftrightarrow> cstring p \<and> length (relativeName p) < 256 \<and>
     (\<forall>q. getRelativeParentName e (Some p) = Some q \<longrightarrow> length q < 256)"

lemma create_parent_inv:
  assumes "fs_inv s" and "cstring p" and "create_parent e s p q = Some r"
  shows "r = Null \<or> (\<exists>k<100. r = Inode k)"
proof -
  have "findFileOrDir e s (take n p) = Some r \<Longrightarrow> r = Null \<or> (\<exists>k<100. r = Inode k)" for n
    by (rule findFileOrDir_cases [OF assms(1) cstring_take [OF assms(2), of n], of e]) auto
  then show ?thesis
    using assms(3) findRoot_inv [OF assms(1)]
    by (auto simp: create_parent_def split: if_splits)
qed

lemma create_parent_total:
  assumes "fs_inv s" and "cstring p"
  shows "\<exists>r. create_parent e s p q = Some r"
proof -
  have "\<exists>r. findFileOrDir e s (take n p) = Some r" for n
    by (rule findFileOrDir_cases [OF assms(1) cstring_take [OF assms(2), of n], of e]) auto
  then show ?thesis using findRoot_inv [OF assms(1)] by (simp add: create_parent_def)
qed

lemma create_at_run:
  assumes "fs_inv s" and "env_ok e" and "dev_ok e (dev s)" and "path_fits e p" and "0 < i" and "i < 100"
    and "getRelativeParentName e (Some p) = Some q" and "create_parent e s p q = Some (Inode k)" and "k < 100"
  shows "create_at e s p mode i = Some (Inode i, flushed e (created e s (relativeName p) q mode k i))"
proof -
  have p: "cstring p" "length (relativeName p) < 256" "length q < 256"
    using assms(4,7) by (auto simp: path_fits_def)
  let ?l = "s\<lparr>inodes := link_inodes (inodes s) k i\<rparr>"
  have add: "add_to_direntry s (Inode k) (Inode i) = Some (True, ?l)"
    using fs_inv_add [OF assms(1,9,6)] by (auto simp: link_inodes_def)
  have l: "fs_inv ?l" by (rule link_inodes_ok [OF assms(1,9,6)])
  then have f: "fcb_ok (link_inodes (inodes s) k i ! i)" using fs_inv_fcb [OF l assms(6)] by simp
  have len: "length (inodes s) = 100" by (rule fs_inv_length [OF assms(1)])
  have bm: "length (ibmap (sBlock s)) = 5859"
    using assms(1) by (simp add: fs_inv_def geometry_ok_def superblock_typed_def)
  have "fill_inode e ?l p q mode (Inode k) i = Some (created e s (relativeName p) q mode k i)"
    using fill_inode_run [of i ?l k p q e mode] f len bm p assms(6,9)
    by (simp add: fcb_ok_def fcb_sized_def created_def parent_number_def link_inodes_names)
  moreover have "flushAllInodesTodisk e False (created e s (relativeName p) q mode k i)
      = Some (True, flushed e (created e s (relativeName p) q mode k i))"
    using created_inv [OF assms(1,9,5,6) cstring_relativeName [OF p(1)]
        getRelativeParentName_cstring [OF p(1) assms(7)] p(2,3)] assms(2,3)
    by (intro flush_run) (simp_all add: created_def)
  ultimately show ?thesis
    using add len assms(6-8) by (simp add: create_at_def)
qed

text \<open>
  The copies into the name arrays are not guarded: a creation that gets as far with a name that does
  not fit is undefined. One that does not get there has no effect.
\<close>

definition name_overrun :: "env \<Rightarrow> fs \<Rightarrow> string \<Rightarrow> bool" where
  "name_overrun e s p \<longleftrightarrow> create_index (sBlock s) \<noteq> None \<and>
     (case getRelativeParentName e (Some p) of
        None \<Rightarrow> False
      | Some q \<Rightarrow> create_parent e s p q \<noteq> Some Null \<and> (256 \<le> length (relativeName p) \<or> 256 \<le> length q))"

lemma name_overrun_unfit: "name_overrun e s p \<Longrightarrow> \<not> path_fits e p"
  by (auto simp: name_overrun_def path_fits_def split: option.splits)

lemma fill_too_long:
  assumes "fs_inv s" and "i < 100" and "256 \<le> length (relativeName p) \<or> 256 \<le> length q"
  shows "fill_inode e s p q m r i = None"
proof -
  have "length (fileName (inodes s ! i)) = 256 \<and> length (parentDir (inodes s ! i)) = 256"
    using fs_inv_fcb [OF assms(1,2)] by (simp add: fcb_ok_def fcb_sized_def)
  then show ?thesis
    using fs_inv_length [OF assms(1)] assms(2,3) by (auto simp: fill_inode_def strcpy_def Option.bind_eq_None_conv)
qed

lemma create_at_too_long:
  assumes "fs_inv s" and "i < 100" and "getRelativeParentName e (Some p) = Some q"
    and "create_parent e s p q = Some (Inode k)" and "k < 100"
    and "256 \<le> length (relativeName p) \<or> 256 \<le> length q"
  shows "create_at e s p m i = None"
proof -
  obtain s1 where add: "add_to_direntry s (Inode k) (Inode i) = Some (True, s1)" and s1: "fs_inv s1"
    using fs_inv_add [OF assms(1,5,2)] by blast
  show ?thesis
    using fill_too_long [OF s1 assms(2,6)] assms(2-4) add fs_inv_length [OF assms(1)] by (simp add: create_at_def)
qed

lemma create_inode_unfit:
  assumes "fs_inv s" and "cstring p" and "\<not> path_fits e p"
  shows "create_inode e s p m = (if name_overrun e s p then None else Some (Null, s))"
proof (cases "create_index (sBlock s)")
  case None
  then show ?thesis using create_inode_at [OF assms(1)] by (simp add: name_overrun_def)
next
  case (Some i)
  then have i: "i < 100" using create_index_bound [OF assms(1)] by simp
  have at: "create_inode e s p m = create_at e s p m i" using create_inode_at [OF assms(1)] Some by simp
  show ?thesis
  proof (cases "getRelativeParentName e (Some p)")
    case None
    then show ?thesis using at by (simp add: create_at_def name_overrun_def)
  next
    case q: (Some q)
    then have long: "256 \<le> length (relativeName p) \<or> 256 \<le> length q"
      using assms(2,3) by (auto simp: path_fits_def)
    obtain r where r: "create_parent e s p q = Some r" using create_parent_total [OF assms(1,2)] by blast
    show ?thesis
      using create_parent_inv [OF assms(1,2) r] create_at_too_long [OF assms(1) i q, of _ m] at Some q r long
      by (auto simp: name_overrun_def create_at_def)
  qed
qed

text \<open>The three outcomes of \<open>create_inode\<close> on a well-formed state.\<close>

lemma create_inode_cases:
  assumes "fs_inv s" and "env_ok e" and "dev_ok e (dev s)" and "path_fits e p"
  obtains "create_inode e s p mode = Some (Null, s)"
  | i k q where "create_inode e s p mode = Some (Inode i, flushed e (created e s (relativeName p) q mode k i))"
    and "create_index (sBlock s) = Some i" and "0 < i" and "i < 100" and "k < 100"
    and "getRelativeParentName e (Some p) = Some q" and "create_parent e s p q = Some (Inode k)"
    and "cstring q" and "length q < 256"
proof (cases "create_index (sBlock s)")
  case None
  then show ?thesis using that(1) create_inode_at [OF assms(1)] by simp
next
  case (Some i)
  have i: "0 < i" "i < 100" using create_index_bound [OF assms(1) Some] by simp_all
  have at: "create_inode e s p mode = create_at e s p mode i"
    using create_inode_at [OF assms(1)] Some by simp
  show ?thesis
  proof (cases "getRelativeParentName e (Some p)")
    case None
    then show ?thesis using that(1) at by (simp add: create_at_def)
  next
    case q: (Some q)
    have p: "cstring p" using assms(4) by (simp add: path_fits_def)
    obtain r where r: "create_parent e s p q = Some r" using create_parent_total [OF assms(1) p] by blast
    from create_parent_inv [OF assms(1) p r] show ?thesis
    proof
      assume "r = Null"
      then show ?thesis using that(1) at q r by (simp add: create_at_def)
    next
      assume "\<exists>k<100. r = Inode k"
      then obtain k where k: "k < 100" "create_parent e s p q = Some (Inode k)" using r by blast
      show ?thesis
        using that(2) [of i q k] at create_at_run [OF assms i q k(2,1)] Some i k q
          getRelativeParentName_cstring [OF p q] assms(4)
        by (auto simp: path_fits_def)
    qed
  qed
qed

lemma create_inode_inv:
  assumes "fs_inv s" and "env_ok e" and "dev_ok e (dev s)" and "path_fits e p"
  shows "\<exists>r s'. create_inode e s p mode = Some (r, s') \<and> fs_inv s' \<and> dev_ok e (dev s')"
proof (rule create_inode_cases [OF assms, of mode])
  assume "create_inode e s p mode = Some (Null, s)"
  then show ?thesis using assms(1,3) by blast
next
  fix i k q
  assume c: "create_inode e s p mode = Some (Inode i, flushed e (created e s (relativeName p) q mode k i))"
    and h: "0 < i" "i < 100" "k < 100" "cstring q" "length q < 256"
  have "cstring (relativeName p)" "length (relativeName p) < 256"
    using assms(4) cstring_relativeName by (auto simp: path_fits_def)
  with created_inv [OF assms(1) h(3,1,2) _ h(4)] h(5)
  have "fs_inv (created e s (relativeName p) q mode k i)" by blast
  with c assms(3) show ?thesis by (simp add: created_def)
qed

section \<open>Finding what was created\<close>

lemma entry_matches_env: "heap_ok e \<Longrightarrow> heap_ok e' \<Longrightarrow> entry_matches e p f = entry_matches e' p f"
  using getRelativeParentName_env [of e e' "Some p"] by (simp add: entry_matches_def)

lemma created_other:
  assumes "j \<noteq> i"
  shows "name_of (inodes (created e s rel par mode k i) ! j) = name_of (inodes s ! j)"
    and "parent_name_of (inodes (created e s rel par mode k i) ! j) = parent_name_of (inodes s ! j)"
  using assms by (simp_all add: created_def name_of_def parent_name_of_def link_inodes_names)

lemma created_other_matches:
  "j \<noteq> i \<Longrightarrow> entry_matches e p (inodes (created e' s rel par mode k i) ! j) = entry_matches e p (inodes s ! j)"
  by (simp add: entry_matches_def created_other split: option.split)

lemma created_new:
  assumes "i < length (inodes s)"
  shows "inodes (created e s rel par mode k i) ! i
    = new_fcb e (link_inodes (inodes s) k i ! i) rel par mode (parent_number (inodes s) k i) i"
  using assms by (simp add: created_def)

lemma created_new_matches:
  assumes "i < length (inodes s)" and "cstring rel" and "cstring par"
  shows "entry_matches e p (inodes (created e' s rel par mode k i) ! i) \<longleftrightarrow>
    rel = relativeName p \<and> (case getRelativeParentName e (Some p) of None \<Rightarrow> True | Some q \<Rightarrow> par = q)"
  using new_fcb_names [OF assms(2,3)] by (auto simp: entry_matches_def created_new [OF assms(1)] split: option.split)

lemma find_upt_replace:
  assumes "\<And>j. j < n \<Longrightarrow> j \<noteq> i \<Longrightarrow> P j = Q j" and "\<And>j. j < n \<Longrightarrow> \<not> P j" and "Q i" and "i < n"
  shows "find Q [0..<n] = Some i"
  using assms by (auto simp: find_upt_Some_iff)

lemma created_found:
  assumes "fs_inv s" and "fs_inv (created e s rel par mode k i)" and "i < nat (n_inodes s)"
    and "cstring p" and "rel = relativeName p" and "getRelativeParentName e (Some p) = Some par"
    and "findFileOrDir e s p = Some Null"
  shows "findFileOrDir e (created e s rel par mode k i) p = Some (Inode i)"
proof -
  let ?t = "created e s rel par mode k i"
  have ne: "p \<noteq> ''/''" using assms(7) findRoot_inv [OF assms(1)] by (auto simp: findFileOrDir_def)
  have i: "i < length (inodes s)" using assms(3) fs_inv_count [OF assms(1)] fs_inv_length [OF assms(1)] by simp
  have new: "entry_matches e p (inodes ?t ! i)"
    using created_new_matches [OF i cstring_relativeName [OF assms(4)]
        getRelativeParentName_cstring [OF assms(4,6)]] assms(5,6) by simp
  have none: "\<not> entry_matches e p (inodes s ! j)" if "j < nat (n_inodes s)" for j
    using assms(7) that by (cases rule: findFileOrDir_cases [OF assms(1,4), of e]) auto
  have "find (\<lambda>j. entry_matches e p (inodes ?t ! j)) [0..<nat (n_inodes s)] = Some i"
    by (rule find_upt_replace [where P = "\<lambda>j. entry_matches e p (inodes s ! j)"])
      (simp_all add: created_other_matches none new assms(3))
  moreover have "n_inodes ?t = n_inodes s" by (simp add: created_def)
  ultimately show ?thesis using findFileOrDir_find [OF assms(2,4) ne, of e] by simp
qed

lemma created_find_frame:
  assumes "fs_inv s" and "fs_inv (created e s rel par mode k i)" and "cstring p"
    and "entry_matches e' p (inodes (created e s rel par mode k i) ! i) = entry_matches e' p (inodes s ! i)"
  shows "findFileOrDir e' (created e s rel par mode k i) p = findFileOrDir e' s p"
proof (cases "p = ''/''")
  case True
  then show ?thesis using findRoot_inv [OF assms(1)] findRoot_inv [OF assms(2)] by (simp add: findFileOrDir_def)
next
  case False
  have "entry_matches e' p (inodes (created e s rel par mode k i) ! j) = entry_matches e' p (inodes s ! j)" for j
    using assms(4) created_other_matches [of j i] by (cases "j = i") auto
  moreover have "n_inodes (created e s rel par mode k i) = n_inodes s" by (simp add: created_def)
  ultimately show ?thesis
    using findFileOrDir_find [OF assms(1,3) False, of e'] findFileOrDir_find [OF assms(2,3) False, of e'] by simp
qed

lemma findFileOrDir_flushed [simp]: "findFileOrDir e (flushed e' s) p = findFileOrDir e s p"
proof -
  have "findFileOrDir_loop e (flushed e' s) p r x n = findFileOrDir_loop e s p r x n" for r x n
    by (induction n arbitrary: x) (simp_all cong: option.case_cong if_cong)
  then show ?thesis
    by (simp add: findFileOrDir_def findRootOrDieTrying_def inode_address_def)
qed

lemma new_fcb_fields [simp]:
  "inumber (new_fcb e f rel par m pn i) = of_nat i" "parent_inumber (new_fcb e f rel par m pn i) = pn"
  "fcb_mode (new_fcb e f rel par m pn i) = ucast m" "fcb_uid (new_fcb e f rel par m pn i) = ucast (uid_now e)"
  "fcb_time (new_fcb e f rel par m pn i) = time_now e" "fileSize (new_fcb e f rel par m pn i) = fileSize f"
  "numBlocks (new_fcb e f rel par m pn i) = numBlocks f" "fcb_block (new_fcb e f rel par m pn i) = fcb_block f"
  "dirContents (new_fcb e f rel par m pn i) = dirContents f"
  by (simp_all add: new_fcb_def)

text \<open>What is known of a creation that succeeded.\<close>

lemma create_inode_SomeE:
  assumes "fs_inv s" and "env_ok e" and "dev_ok e (dev s)" and "path_fits e p"
    and "create_inode e s p m = Some (Inode i, t)"
  obtains k q where "t = flushed e (created e s (relativeName p) q m k i)"
    and "fs_inv (created e s (relativeName p) q m k i)" and "create_index (sBlock s) = Some i"
    and "0 < i" and "i < 100" and "i < nat (n_inodes s)" and "k < 100"
    and "getRelativeParentName e (Some p) = Some q" and "create_parent e s p q = Some (Inode k)"
    and "cstring (relativeName p)" and "cstring q"
proof (cases rule: create_inode_cases [OF assms(1-4), of m])
  case 1
  then show ?thesis using assms(5) by simp
next
  case (2 i' k q)
  have p: "cstring (relativeName p)" "length (relativeName p) < 256"
    using assms(4) cstring_relativeName by (auto simp: path_fits_def)
  have eq: "i' = i" "t = flushed e (created e s (relativeName p) q m k i)" using 2(1) assms(5) by auto
  note 2 = 2 [unfolded eq(1)]
  have "i < nat (n_inodes s)" using create_index_bound [OF assms(1) 2(2)] by linarith
  then show ?thesis
    using that [OF eq(2) created_inv [OF assms(1) 2(5,3,4) p(1) 2(8) p(2) 2(9)] 2(2-4) _ 2(5-7) p(1) 2(8)] by blast
qed

section \<open>What removal does\<close>

definition removed_at :: "fs \<Rightarrow> nat \<Rightarrow> nat \<Rightarrow> fs" where
  "removed_at s k c =
     (let s1 = (case find (numbered_slot s k (inumber (inodes s ! c))) [0..<30] of None \<Rightarrow> s
          | Some j \<Rightarrow> s\<lparr>inodes := (inodes s)[k := (inodes s ! k)\<lparr>dirContents :=
              take_entry j (dirContents (inodes s ! k))\<rparr>]\<rparr>)
      in s1\<lparr>sBlock := (sBlock s1)\<lparr>ibmap :=
           (ibmap (sBlock s1))[nat (sint (inumber (inodes s ! c))) := 0]\<rparr>\<rparr>)"

lemma removed_names:
  "fileName (inodes (removed_at s k c) ! j) = fileName (inodes s ! j)"
  "parentDir (inodes (removed_at s k c) ! j) = parentDir (inodes s ! j)"
  "inumber (inodes (removed_at s k c) ! j) = inumber (inodes s ! j)"
  "parent_inumber (inodes (removed_at s k c) ! j) = parent_inumber (inodes s ! j)"
  by (cases "k < length (inodes s)"; cases "j = k";
      simp add: removed_at_def Let_def list_update_beyond split: option.split)+

lemma removed_inv:
  assumes "fs_inv s" and "k < 100" and "c < 100"
  shows "fs_inv (removed_at s k c)"
  using fs_inv_remove [OF assms] remove_from_direntry_spec [OF assms]
  by (auto simp: removed_at_def Let_def intro!: fs_inv_bitmap)

lemma remove_inode_run:
  assumes "fs_inv s" and "env_ok e" and "dev_ok e (dev s)" and "cstring p" and "p \<noteq> ''/''"
    and "findFileOrDir e s p = Some (Inode c)"
  shows "remove_inode e s p = Some (True,
    flushed e (removed_at s (nat (sint (parent_inumber (inodes s ! c)))) c))"
proof -
  have c: "0 < c" "c < 100" using findFileOrDir_nonroot [OF assms(1,4,5,6)] by simp_all
  let ?k = "nat (sint (parent_inumber (inodes s ! c)))"
  have k: "?k < 100"
    using fs_inv_parent [OF assms(1) c] by (auto simp: number_ok_def)
  let ?s1 = "(case find (numbered_slot s ?k (inumber (inodes s ! c))) [0..<30] of None \<Rightarrow> s
      | Some j \<Rightarrow> s\<lparr>inodes := (inodes s)[?k := (inodes s ! ?k)\<lparr>dirContents :=
          take_entry j (dirContents (inodes s ! ?k))\<rparr>]\<rparr>)"
  have rm: "remove_from_direntry s (Inode ?k) (Inode c) = Some (True, ?s1)"
    by (rule remove_from_direntry_spec [OF assms(1) k c(2)])
  have inv1: "fs_inv ?s1" using fs_inv_remove [OF assms(1) k c(2)] rm by auto
  have num: "inumber (inodes ?s1 ! c) = inumber (inodes s ! c)"
    using fs_inv_length [OF assms(1)] k by (cases "c = ?k") (auto split: option.split)
  have n: "number_ok (inumber (inodes s ! c))"
    using fs_inv_fcb [OF assms(1) c(2)] by (simp add: fcb_ok_def)
  have bm: "length (ibmap (sBlock ?s1)) = 5859"
    using inv1 by (simp add: fs_inv_def geometry_ok_def superblock_typed_def)
  have "arr_set (ibmap (sBlock ?s1)) (sint (inumber (inodes s ! c))) 0
      = Some ((ibmap (sBlock ?s1))[nat (sint (inumber (inodes s ! c))) := 0])"
    using n bm by (simp add: arr_set_def number_ok_def)
  moreover have "flushAllInodesTodisk e False (removed_at s ?k c) = Some (True, flushed e (removed_at s ?k c))"
    using removed_inv [OF assms(1) k c(2)] assms(2,3)
    by (intro flush_run) (auto simp: removed_at_def Let_def split: option.split)
  moreover have "deref ?s1 (Inode c) = Some (inodes ?s1 ! c)"
    using fs_inv_length [OF inv1] c(2) by simp
  ultimately show ?thesis
    using assms(6) getParentFcb_inv [OF assms(1) c] rm num
    by (simp add: remove_inode_def removed_at_def Let_def)
qed

lemma remove_inode_missing:
  "findFileOrDir e s p = Some Null \<Longrightarrow> remove_inode e s p = Some (False, s)"
  by (simp add: remove_inode_def)

lemma remove_inode_inv:
  assumes "fs_inv s" and "env_ok e" and "dev_ok e (dev s)" and "cstring p" and "p \<noteq> ''/''"
  shows "\<exists>r s'. remove_inode e s p = Some (r, s') \<and> fs_inv s' \<and> dev_ok e (dev s')"
proof (rule findFileOrDir_cases [OF assms(1,4), of e])
  assume "findFileOrDir e s p = Some Null"
  then show ?thesis using remove_inode_missing assms(1,3) by blast
next
  fix c assume c: "findFileOrDir e s p = Some (Inode c)"
  let ?k = "nat (sint (parent_inumber (inodes s ! c)))"
  have c': "0 < c" "c < 100" using findFileOrDir_nonroot [OF assms(1,4,5) c] by simp_all
  then have "?k < 100" using fs_inv_parent [OF assms(1) c'] by (auto simp: number_ok_def)
  from removed_inv [OF assms(1) this c'(2)] have "fs_inv (removed_at s ?k c)" .
  moreover have "dev (removed_at s ?k c) = dev s"
    by (simp add: removed_at_def Let_def split: option.split)
  ultimately show ?thesis using remove_inode_run [OF assms c] assms(3) by auto
qed

end
