(* ===== verification/Sfs_Ops.thy ===== *)
theory Sfs_Ops
  imports Inode_Ops
begin

unbundle bit_operations_syntax

text \<open>
  The callbacks of \<open>src/src/sfs.c\<close> that FUSE calls on a mounted file system. Each takes the
  environment, the state and its arguments and returns what the C function returns, what it
  writes through its pointer arguments, and the state afterwards. The global \<open>errno\<close> is the
  value the program itself last assigned. On a well-formed state every callback is shown to
  be defined, to keep the invariant, and to have one of the outcomes listed.
\<close>

section \<open>Attributes\<close>

record stat =
  st_dev :: c_long
  st_ino :: c_long
  st_mode :: c_int
  st_nlink :: c_long
  st_uid :: c_int
  st_gid :: c_int
  st_rdev :: c_long
  st_size :: c_long
  st_atime :: c_long
  st_mtime :: c_long
  st_ctime :: c_long
  st_blksize :: c_long
  st_blocks :: c_long

text \<open>The paths answered from \<open>inodes[0]\<close>: \<open>&&\<close> binds tighter than \<open>||\<close>.\<close>

definition trash_or_root :: "string \<Rightarrow> bool" where
  "trash_or_root path \<longleftrightarrow>
     path = ''/.Trash'' \<or> take 8 path = ''/.Trash-'' \<and> length path = 13 \<or> path = ''/''"

text \<open>
  The file type for an inode: only three values of its 16-bit \<open>mode\<close> are known, and for
  any other one the field keeps what the caller's buffer held.
\<close>

definition type_of_mode :: "c_short \<Rightarrow> c_int \<Rightarrow> c_int" where
  "type_of_mode m old =
     (if sint m = 493 \<or> sint m = 16384 then S_IFDIR
      else if sint m = - 32348 then S_IFREG else old)"

definition sfs_getattr :: "env \<Rightarrow> fs \<Rightarrow> string \<Rightarrow> stat option \<Rightarrow> (int \<times> stat option \<times> fs) option" where
  "sfs_getattr e s path statbuf =
     (if PATH_MAX < length path then Some (- 1, statbuf, s\<lparr>errno := ENAMETOOLONG\<rparr>)
      else case statbuf of
        None \<Rightarrow> Some (- 1, None, s\<lparr>errno := EIO\<rparr>)
      | Some st \<Rightarrow>
          if trash_or_root path then do {
            f \<leftarrow> arr_get (inodes s) 0;
            Some (0, Some (st\<lparr>st_dev := 0, st_ino := 0,
              st_mode := (if path = ''/'' then S_IFDIR OR 493 else S_IFREG OR 438),
              st_nlink := 0, st_uid := scast (fcb_uid f), st_gid := gid_now e, st_rdev := 0,
              st_size := fileSize f, st_atime := fcb_time f, st_mtime := 0, st_ctime := 0,
              st_blksize := of_nat BLOCK_SIZE, st_blocks := 0\<rparr>), s) }
          else do {
            fileHandle \<leftarrow> findFileOrDir e s path;
            (if fileHandle = Null then Some (- ENOENT, statbuf, s)
             else do {
               f \<leftarrow> deref s fileHandle;
               Some (0, Some (st\<lparr>st_dev := 0, st_ino := 0,
                 st_mode := type_of_mode (fcb_mode f) (st_mode st),
                 st_nlink := 0, st_uid := scast (fcb_uid f), st_gid := gid_now e, st_rdev := 0,
                 st_size := fileSize f, st_atime := fcb_time f, st_mtime := fcb_time f,
                 st_ctime := fcb_time f, st_blksize := of_nat BLOCK_SIZE, st_blocks := 0\<rparr>), s) }) })"

section \<open>Creating and removing\<close>

definition sfs_create :: "env \<Rightarrow> fs \<Rightarrow> string \<Rightarrow> c_int \<Rightarrow> (int \<times> fs) option" where
  "sfs_create e s path mode = do {
     (f, s') \<leftarrow> create_inode e s path mode;
     Some (if f = Null then - errno s' else 0, s') }"

definition sfs_unlink :: "env \<Rightarrow> fs \<Rightarrow> string \<Rightarrow> (int \<times> fs) option" where
  "sfs_unlink e s path = do {
     (removed, s') \<leftarrow> remove_inode e s path;
     (if \<not> removed then let s'' = s'\<lparr>errno := ENOENT\<rparr> in Some (- errno s'', s'')
      else Some (0, s')) }"

text \<open>
  \<open>mode\<close> is unsigned, so the comparison with \<open>-32348\<close> is one with \<open>4294934948\<close>; what
  \<open>create_inode\<close> returns is not looked at.
\<close>

definition sfs_mkdir :: "env \<Rightarrow> fs \<Rightarrow> string \<Rightarrow> c_int \<Rightarrow> (int \<times> fs) option" where
  "sfs_mkdir e s path mode =
     (if mode = 493 then do {
        (f, s') \<leftarrow> create_inode e s path S_IFDIR;
        Some (0, s') }
      else if mode = - 32348 then do {
        (f, s') \<leftarrow> create_inode e s path S_IFREG;
        Some (0, s') }
      else Some (0, s))"

definition sfs_rmdir :: "env \<Rightarrow> fs \<Rightarrow> string \<Rightarrow> (int \<times> fs) option" where
  "sfs_rmdir e s path = do {
     (removed, s') \<leftarrow> remove_inode e s path;
     (if \<not> removed then let s'' = s'\<lparr>errno := ENOENT\<rparr> in Some (- errno s'', s'')
      else Some (0, s')) }"

section \<open>Opening and closing\<close>

definition sfs_open :: "env \<Rightarrow> fs \<Rightarrow> string \<Rightarrow> (int \<times> fs) option" where
  "sfs_open e s path = do {
     f \<leftarrow> findFileOrDir e s path;
     (if f \<noteq> Null then Some (0, s)
      else let s' = s\<lparr>errno := ENOENT\<rparr> in Some (- errno s', s')) }"

definition sfs_release :: "env \<Rightarrow> fs \<Rightarrow> string \<Rightarrow> (int \<times> fs) option" where
  "sfs_release e s path = do {
     f \<leftarrow> findFileOrDir e s path;
     (if f \<noteq> Null then Some (0, s)
      else let s' = s\<lparr>errno := ENOENT\<rparr> in Some (- errno s', s')) }"

definition sfs_opendir :: "env \<Rightarrow> fs \<Rightarrow> string \<Rightarrow> (int \<times> fs) option" where
  "sfs_opendir e s path = do {
     f \<leftarrow> findFileOrDir e s path;
     (if f \<noteq> Null then Some (0, s)
      else let s' = s\<lparr>errno := ENOENT\<rparr> in Some (- errno s', s')) }"

definition sfs_releasedir :: "fs \<Rightarrow> string \<Rightarrow> (int \<times> fs) option" where
  "sfs_releasedir s path = Some (0, s)"

section \<open>Reading and writing\<close>

text \<open>Reading is not implemented: the buffer is returned as it was.\<close>

definition sfs_read ::
  "env \<Rightarrow> fs \<Rightarrow> string \<Rightarrow> byte list \<Rightarrow> c_long \<Rightarrow> c_long \<Rightarrow> (int \<times> byte list \<times> fs) option" where
  "sfs_read e s path buf sz offset = do {
     fc \<leftarrow> findFileOrDir e s path;
     (if fc \<noteq> Null then Some (0, buf, s)
      else let s' = s\<lparr>errno := ENOENT\<rparr> in Some (- errno s', buf, s')) }"

text \<open>
  \<open>sizeof(fc->block)/sizeof(fc->block[0])\<close> is 60, as \<open>block\<close> is an array of characters. The
  loop over the blocks of the file has an empty body.
\<close>

definition write_capacity :: nat where
  "write_capacity = 60 * BLOCK_SIZE"

definition sfs_write ::
  "env \<Rightarrow> fs \<Rightarrow> string \<Rightarrow> byte list \<Rightarrow> c_long \<Rightarrow> c_long \<Rightarrow> (int \<times> fs) option" where
  "sfs_write e s path buf sz offset = do {
     fc \<leftarrow> findFileOrDir e s path;
     (if fc \<noteq> Null
      then Some (- 1, if unat sz \<le> write_capacity then s else s\<lparr>errno := EFBIG\<rparr>)
      else Some (- 1, s\<lparr>errno := ENOENT\<rparr>)) }"

section \<open>Listing a directory\<close>

text \<open>
  The loop of \<open>sfs_readdir\<close> from slot \<open>i\<close>: the names it hands to \<open>filler\<close>. It stops at the
  first null slot only; \<open>None\<close> when it reads behind the array.
\<close>

function readdir_loop :: "fs \<Rightarrow> fcb_ptr list \<Rightarrow> nat \<Rightarrow> string list option" where
  "readdir_loop s dc i =
     (case arr_get dc (int i) of
        None \<Rightarrow> None
      | Some entry \<Rightarrow>
          if entry \<noteq> Null then do {
            f \<leftarrow> deref s entry;
            name \<leftarrow> cstr (fileName f);
            rest \<leftarrow> readdir_loop s dc (i + 1);
            Some (name # rest) }
          else Some [])"
  by pat_completeness auto
termination
  by (relation "measure (\<lambda>(s, dc, i). length dc - i)") (auto dest: arr_get_SomeD)

declare readdir_loop.simps [simp del]

text \<open>
  The result and the names given to \<open>filler\<close>, whose answer is not looked at. The array
  \<open>dirContents\<close> is never a null pointer, so that test is not taken.
\<close>

definition sfs_readdir :: "env \<Rightarrow> fs \<Rightarrow> string \<Rightarrow> (int \<times> string list \<times> fs) option" where
  "sfs_readdir e s path = do {
     directory \<leftarrow> findFileOrDir e s path;
     (if directory = Null then Some (- 1, [''.'', ''..''], s)
      else do {
        d \<leftarrow> deref s directory;
        names \<leftarrow> readdir_loop s (dirContents d) 0;
        Some (0, [''.'', ''..''] @ names, s) }) }"

section \<open>The callbacks on a well-formed state\<close>

lemma find_total:
  assumes "fs_inv s" and "cstring p"
  obtains "findFileOrDir e s p = Some Null"
  | k where "findFileOrDir e s p = Some (Inode k)" and "k < 100"
  using findFileOrDir_cases [OF assms, of e] by metis

text \<open>The four callbacks that only ask whether the path is there.\<close>

definition find_answer :: "env \<Rightarrow> fs \<Rightarrow> string \<Rightarrow> int \<times> fs" where
  "find_answer e s p =
     (if findFileOrDir e s p = Some Null then (- ENOENT, s\<lparr>errno := ENOENT\<rparr>) else (0, s))"

lemma find_callbacks:
  assumes "fs_inv s" and "cstring p"
  shows "sfs_open e s p = Some (find_answer e s p)" "sfs_release e s p = Some (find_answer e s p)"
    "sfs_opendir e s p = Some (find_answer e s p)"
    "sfs_read e s p buf sz off = Some (fst (find_answer e s p), buf, snd (find_answer e s p))"
  by (rule find_total [OF assms, of e];
      simp add: sfs_open_def sfs_release_def sfs_opendir_def sfs_read_def find_answer_def)+

lemma fs_inv_find_answer: "fs_inv s \<Longrightarrow> fs_inv (snd (find_answer e s p))"
  by (simp add: find_answer_def)

lemma dev_find_answer: "dev (snd (find_answer e s p)) = dev s"
  by (simp add: find_answer_def)

text \<open>The result and the state of writing.\<close>

definition write_errno :: "env \<Rightarrow> fs \<Rightarrow> string \<Rightarrow> c_long \<Rightarrow> int" where
  "write_errno e s p sz =
     (if findFileOrDir e s p = Some Null then ENOENT
      else if unat sz \<le> 245760 then errno s else EFBIG)"

lemma sfs_write_run:
  assumes "fs_inv s" and "cstring p"
  shows "sfs_write e s p buf sz off = Some (- 1, s\<lparr>errno := write_errno e s p sz\<rparr>)"
  by (rule find_total [OF assms, of e])
    (simp_all add: sfs_write_def write_errno_def write_capacity_def)

lemma errno_self: "\<exists>n. s = s\<lparr>errno := n\<rparr>"
  by (rule exI [of _ "errno s"]) simp

lemma sfs_getattr_run:
  assumes "fs_inv s" and "cstring p"
  shows "\<exists>r st' n. sfs_getattr e s p st = Some (r, st', s\<lparr>errno := n\<rparr>)"
proof -
  have a: "arr_get (inodes s) 0 = Some (inodes s ! 0)"
    using fs_inv_length [OF assms(1)] by (simp add: arr_get_def)
  have "\<exists>r st' s'. sfs_getattr e s p st = Some (r, st', s') \<and> (\<exists>n. s' = s\<lparr>errno := n\<rparr>)"
    by (rule find_total [OF assms, of e])
      (use a fs_inv_length [OF assms(1)] errno_self [of s] in
        \<open>auto simp: sfs_getattr_def split: option.split\<close>)
  then show ?thesis by blast
qed

section \<open>The listing\<close>

text \<open>The used slots in front of the first gap.\<close>

definition listed :: "fcb_ptr list \<Rightarrow> fcb_ptr list" where
  "listed dc = takeWhile (\<lambda>p. p \<noteq> Null) dc"

definition listed_names :: "fs \<Rightarrow> fcb_ptr list \<Rightarrow> string list" where
  "listed_names s dc = map (\<lambda>p. name_of (inodes s ! ptr_index p)) (listed dc)"

lemma listed_Cons: "listed (p # dc) = (if p = Null then [] else p # listed dc)"
  by (simp add: listed_def)

lemma readdir_loop_run:
  assumes "fs_inv s" and "list_all ptr_ok dc"
  shows "readdir_loop s dc i =
    (if Null \<in> set (drop i dc) then Some (listed_names s (drop i dc)) else None)"
  using assms
proof (induction s dc i rule: readdir_loop.induct)
  case (1 s dc i)
  show ?case
  proof (cases "i < length dc")
    case False
    then show ?thesis by (simp add: readdir_loop.simps [of _ dc i] arr_get_def)
  next
    case i: True
    then have split: "drop i dc = dc ! i # drop (Suc i) dc" by (rule Cons_nth_drop_Suc [symmetric])
    note get = arr_get_in [OF i]
    show ?thesis
    proof (cases "dc ! i = Null")
      case True
      then show ?thesis
        by (simp add: readdir_loop.simps [of _ dc i] get split listed_names_def listed_Cons)
    next
      case False
      have "ptr_ok (dc ! i)" using "1.prems"(2) i by (simp add: list_all_length)
      then obtain k where k: "k < 100" "dc ! i = Inode k" using False by (auto simp: ptr_ok_def)
      then have d: "deref s (dc ! i) = Some (inodes s ! k)" using fs_inv_length [OF "1.prems"(1)] by simp
      note n = name_of_cstr [OF fs_inv_fcb [OF "1.prems"(1) k(1)]]
      from "1.IH" [OF get False d n "1.prems"] show ?thesis
        using False d
        by (simp add: readdir_loop.simps [of _ dc i] get k(2) n split listed_names_def listed_Cons)
    qed
  qed
qed

lemma sfs_readdir_run:
  assumes "fs_inv s" and "cstring p"
  shows "sfs_readdir e s p =
    (case findFileOrDir e s p of
       Some (Inode k) \<Rightarrow> (if Null \<in> set (dirContents (inodes s ! k))
         then Some (0, ''.'' # ''..'' # listed_names s (dirContents (inodes s ! k)), s) else None)
     | _ \<Rightarrow> Some (- 1, [''.'', ''..''], s))"
proof (rule find_total [OF assms, of e])
  assume "findFileOrDir e s p = Some Null"
  then show ?thesis by (simp add: sfs_readdir_def)
next
  fix k assume k: "findFileOrDir e s p = Some (Inode k)" "k < 100"
  have "list_all ptr_ok (dirContents (inodes s ! k))"
    using fs_inv_fcb [OF assms(1) k(2)] by (simp add: fcb_ok_def dir_ok_def)
  from readdir_loop_run [OF assms(1) this, of 0] k fs_inv_length [OF assms(1)] show ?thesis
    by (simp add: sfs_readdir_def)
qed

section \<open>Bundles\<close>

text \<open>All callbacks unfolded, for what holds of each of them for the same reason.\<close>

lemmas callback_defs = sfs_getattr_def sfs_create_def sfs_unlink_def sfs_mkdir_def sfs_rmdir_def sfs_open_def
  sfs_release_def sfs_opendir_def sfs_releasedir_def sfs_read_def sfs_write_def sfs_readdir_def

end
