(* ===== verification/Format.thy ===== *)
theory Format
  imports Flush
begin

unbundle bit_operations_syntax

text \<open>
  Creating a file system: \<open>formatDisk\<close> of \<open>src/src/DateiSteuerBlock.c\<close>, with the loop that
  counts how many inodes the disk file is good for.
\<close>

section \<open>The functions\<close>

text \<open>
  The loop of \<open>formatDisk\<close> that counts how many inodes the space is good for. It is given
  as a partial function: that it returns is shown below.
\<close>

definition inode_space :: int where
  [simp]: "inode_space = int (BLOCK_SIZE * 15 + BLOCK_SIZE div sizeof_fcb)"

partial_function (option) format_loop :: "int \<Rightarrow> int \<Rightarrow> int \<Rightarrow> superblock \<Rightarrow> superblock option" where
  "format_loop remainingSpace spaceUsed currAllocation sb =
     (if spaceUsed < remainingSpace then
        let alloc = wrap32 (currAllocation + inode_space) in
        (if alloc < remainingSpace
         then Option.bind (checked_int (spaceUsed + alloc)) (\<lambda>used.
           format_loop remainingSpace used alloc
             (sb\<lparr>numInodes := numInodes sb + 1, numDataBlocks := numDataBlocks sb + 15\<rparr>))
         else Some sb)
      else Some sb)"

definition root_fcb :: "env \<Rightarrow> fcb \<Rightarrow> fcb" where
  "root_fcb e f = initDirContents (f\<lparr>
     fileName := (fileName f)[0 := slash, 1 := NUL], fileSize := 0,
     parentDir := (parentDir f)[0 := NUL], fcb_mode := S_IFDIR OR 493,
     fcb_uid := ucast (uid_now e), fcb_time := time_now e, inumber := 0, parent_inumber := - 1\<rparr>)"

text \<open>The fields of the superblock, up to the marking of the root as used.\<close>

definition format_superblock :: "fs \<Rightarrow> superblock option" where
  "format_superblock s = do {
     let remainingSpace = wrap32 (diskSize s - int sizeof_superblock);
     sb \<leftarrow> format_loop remainingSpace 0 0
       ((sBlock s)\<lparr>numInodesPerBlock := of_nat (BLOCK_SIZE div sizeof_fcb),
         inodeStartIndex := of_nat (1 + sizeof_superblock div BLOCK_SIZE)\<rparr>);
     ib \<leftarrow> arr_set (ibmap sb) 0 1;
     Some (sb\<lparr>magicNum := 666, ibmap := ib\<rparr>) }"

definition formatDisk :: "env \<Rightarrow> fs \<Rightarrow> (int \<times> fs) option" where
  "formatDisk e s = do {
     sb \<leftarrow> format_superblock s;
     f \<leftarrow> arr_get (inodes s) 0;
     fcbs \<leftarrow> arr_set (inodes s) 0 (root_fcb e f);
     let s1 = s\<lparr>sBlock := sb, inodes := fcbs\<rparr>;
     (r, d) \<leftarrow> sBlock_write_padded e (dev s1) 0 (superblock_bytes (sBlock s1)) (int sizeof_superblock);
     (r', d') \<leftarrow> block_write_padded e d (start_index s1) (inodes_memory e s1 0) (int sizeof_fcb) 0;
     (flushed, s2) \<leftarrow> flushAllInodesTodisk e True (s1\<lparr>dev := d'\<rparr>);
     Some (1, s2) }"

section \<open>How many inodes the loop counts\<close>

text \<open>
  After \<open>k\<close> rounds \<open>currAllocation\<close> is \<open>k\<close> times the space of one inode, and \<open>spaceUsed\<close>
  the sum of all values it had so far. The loop ends when either reaches the space left.
\<close>

fun used_after :: "nat \<Rightarrow> int" where
  "used_after 0 = 0"
| "used_after (Suc k) = used_after k + 61444 * int (Suc k)"

definition stops :: "int \<Rightarrow> nat \<Rightarrow> bool" where
  "stops R k \<longleftrightarrow> R \<le> used_after k \<or> R \<le> 61444 * int (Suc k)"

function inode_count :: "int \<Rightarrow> nat \<Rightarrow> nat" where
  "inode_count R k = (if stops R k then k else inode_count R (Suc k))"
  by pat_completeness auto
termination
  by (relation "measure (\<lambda>(R, k). nat (R - 61444 * int k))") (auto simp: stops_def)

declare inode_count.simps [simp del]

lemma used_after_closed: "2 * used_after k = 61444 * (int k * (int k + 1))"
  by (induction k) (simp_all add: algebra_simps)

lemma used_after_mono: "i \<le> j \<Longrightarrow> used_after i \<le> used_after j"
  by (induction j) (auto simp: le_Suc_eq)

lemma used_after_nonneg: "0 \<le> used_after k"
  using used_after_mono [of 0 k] by simp

lemma stops_mono: "stops R i \<Longrightarrow> i \<le> j \<Longrightarrow> stops R j"
  using used_after_mono [of i j] by (auto simp: stops_def)

lemma inode_count_spec: "stops R (inode_count R k) \<and> k \<le> inode_count R k \<and>
  (\<forall>j. k \<le> j \<longrightarrow> j < inode_count R k \<longrightarrow> \<not> stops R j)"
proof (induction R k rule: inode_count.induct)
  case (1 R k)
  show ?case
  proof (cases "stops R k")
    case True
    then show ?thesis by (simp add: inode_count.simps [of R k])
  next
    case False
    then have eq: "inode_count R k = inode_count R (Suc k)" by (simp add: inode_count.simps [of R k])
    have "\<not> stops R j" if "k \<le> j" "j < inode_count R (Suc k)" for j
      using "1.IH" [OF False] that False by (cases "j = k") auto
    then show ?thesis using "1.IH" [OF False] by (auto simp: eq)
  qed
qed

lemma inode_count_le_iff: "inode_count R 0 \<le> n \<longleftrightarrow> stops R n"
  using inode_count_spec [of R 0] stops_mono by (meson le0 not_le)

lemma inode_count_nonpositive: "R \<le> 61444 \<Longrightarrow> inode_count R 0 = 0"
  by (simp add: inode_count.simps stops_def)

text \<open>The counted rounds stay in the range of \<open>int\<close>.\<close>

definition format_range :: "int \<Rightarrow> bool" where
  "format_range R \<longleftrightarrow> R \<le> 2 ^ 31 - 2 ^ 24"

lemma round_in_range:
  assumes "format_range R" and u: "used_after k < R"
  shows "int_ok (61444 * int (Suc k))" and "int_ok (used_after k + 61444 * int (Suc k))"
proof -
  have "k < 265"
  proof (rule ccontr)
    assume "\<not> k < 265"
    then have "used_after 265 \<le> used_after k" by (intro used_after_mono) simp
    then show False using u assms(1) used_after_closed [of 265] by (simp add: format_range_def)
  qed
  then have "61444 * int (Suc k) \<le> 2 ^ 24" by simp
  then show "int_ok (61444 * int (Suc k))" and "int_ok (used_after k + 61444 * int (Suc k))"
    using u used_after_nonneg [of k] assms(1) by (simp_all add: int_ok_def format_range_def)
qed

lemma format_loop_run:
  assumes "format_range R"
  shows "format_loop R (used_after k) (61444 * int k) sb = Some (sb\<lparr>
    numInodes := numInodes sb + of_nat (inode_count R k - k),
    numDataBlocks := numDataBlocks sb + 15 * of_nat (inode_count R k - k)\<rparr>)"
  using assms
proof (induction R k arbitrary: sb rule: inode_count.induct)
  case (1 R k)
  show ?case
  proof (cases "stops R k")
    case True
    then have "\<not> used_after k < R \<or> \<not> wrap32 (61444 * int k + inode_space) < R"
      using wrap32_id [OF round_in_range(1) [OF "1.prems", of k]]
      by (cases "used_after k < R") (simp_all add: stops_def algebra_simps)
    then show ?thesis
      using True by (subst format_loop.simps) (auto simp: Let_def inode_count.simps [of R k])
  next
    case False
    then have "used_after k < R" by (simp add: stops_def)
    note ok = round_in_range [OF "1.prems" this]
    let ?sb = "sb\<lparr>numInodes := numInodes sb + 1, numDataBlocks := numDataBlocks sb + 15\<rparr>"
    have a: "wrap32 (61444 * int k + inode_space) = 61444 * int (Suc k)"
      using wrap32_id [OF ok(1)] by (simp add: algebra_simps)
    have "used_after k < R" and "61444 * int (Suc k) < R" using False by (simp_all add: stops_def)
    then have "format_loop R (used_after k) (61444 * int k) sb
        = format_loop R (used_after (Suc k)) (61444 * int (Suc k)) ?sb"
      using ok(2) by (subst format_loop.simps) (simp only: a Let_def if_True used_after.simps
          checked_int_Some Option.bind.simps)
    also have "\<dots> = Some (?sb\<lparr>
        numInodes := numInodes ?sb + of_nat (inode_count R (Suc k) - Suc k),
        numDataBlocks := numDataBlocks ?sb + 15 * of_nat (inode_count R (Suc k) - Suc k)\<rparr>)"
      by (rule "1.IH" [OF False "1.prems"])
    also have "inode_count R (Suc k) - Suc k = inode_count R k - k - 1"
      using False by (simp add: inode_count.simps [of R k])
    moreover have "k < inode_count R k"
      using False inode_count_spec [of R "Suc k"] by (simp add: inode_count.simps [of R k])
    ultimately show ?thesis by (simp add: of_nat_diff algebra_simps)
  qed
qed

section \<open>The whole function\<close>

text \<open>A process that has not formatted or loaded anything yet.\<close>

definition fresh :: "fs \<Rightarrow> bool" where
  "fresh s \<longleftrightarrow> superblock_typed (sBlock s) \<and> numInodes (sBlock s) = 0 \<and>
     length (inodes s) = NUM_INODES \<and> list_all fcb_ok (inodes s) \<and>
     list_all (\<lambda>f. number_ok (parent_inumber f)) (tl (inodes s))"

lemma fresh_fs0: "fresh (fs0 f)"
proof -
  have "number_ok (parent_inumber fcb0)" by (simp add: number_ok_def fcb0_def)
  then show ?thesis
    using superblock0_typed fcb0_ok
    by (simp add: fresh_def fs0_def list_all_iff superblock0_def)
qed

lemma fresh_updates [simp]: "fresh (s\<lparr>dev := d\<rparr>) = fresh s" "fresh (s\<lparr>diskSize := z\<rparr>) = fresh s"
  by (simp_all add: fresh_def)

definition format_count :: "fs \<Rightarrow> nat" where
  "format_count s = inode_count (diskSize s - 11744) 0"

definition formatted_sBlock :: "superblock \<Rightarrow> nat \<Rightarrow> superblock" where
  "formatted_sBlock sb n = sb\<lparr>numInodesPerBlock := 4, inodeStartIndex := 3, numInodes := of_nat n,
     numDataBlocks := numDataBlocks sb + 15 * of_nat n, magicNum := 666, ibmap := (ibmap sb)[0 := 1]\<rparr>"

definition formatted_inodes :: "env \<Rightarrow> fs \<Rightarrow> fcb list" where
  "formatted_inodes e s = (inodes s)[0 := root_fcb e (inodes s ! 0)]"

definition formatted :: "env \<Rightarrow> fs \<Rightarrow> fs" where
  "formatted e s =
     (let n = format_count s; sb = formatted_sBlock (sBlock s) n; fcbs = formatted_inodes e s in
      s\<lparr>sBlock := sb\<lparr>ibmap := clear_range 1 (1 + (n - 2)) (ibmap sb)\<rparr>, inodes := fcbs,
        dev := (dev s)\<lparr>disk := write_all file_write
          ((0, superblock_bytes sb) # inode_writes e fcbs 0 (1 + (n - 2))) (disk (dev s))\<rparr>\<rparr>)"

lemma cstr_root_name: "length b = 256 \<Longrightarrow> cstr (b[0 := slash, 1 := NUL]) = Some ''/''"
  by (cases b; cases "tl b") auto

lemma cstr_cleared: "b \<noteq> [] \<Longrightarrow> cstr (b[0 := NUL]) = Some []"
  by (cases b) auto

lemma root_fcb_ok: "fcb_ok f \<Longrightarrow> fcb_ok (root_fcb e f)"
proof -
  assume f: "fcb_ok f"
  then have l: "length (fileName f) = 256" "length (parentDir f) = 256"
    by (simp_all add: fcb_ok_def fcb_sized_def)
  then have "parentDir f \<noteq> []" by auto
  then show ?thesis
    using f l cstr_root_name [of "fileName f"] cstr_cleared [of "parentDir f"] fcb_ok_init [OF f]
    by (simp add: root_fcb_def fcb_ok_def fcb_sized_def names_ok_def dir_ok_def initDirContents_def
        number_ok_def)
qed

lemma root_fcb_name: "fcb_ok f \<Longrightarrow> cstr (fileName (root_fcb e f)) = Some ''/''"
  using cstr_root_name [of "fileName f"]
  by (simp add: root_fcb_def initDirContents_def fcb_ok_def fcb_sized_def)

lemma formatted_inodes_ok:
  assumes "fresh s"
  shows "length (formatted_inodes e s) = 100" and "list_all fcb_ok (formatted_inodes e s)"
    and "list_all (\<lambda>f. number_ok (parent_inumber f)) (tl (formatted_inodes e s))"
    and "cstr (fileName (formatted_inodes e s ! 0)) = Some ''/''"
proof -
  have f: "fcb_ok (inodes s ! 0)" and l: "length (inodes s) = 100"
    using assms by (simp_all add: fresh_def list_all_length)
  show "length (formatted_inodes e s) = 100" using l by (simp add: formatted_inodes_def)
  show "list_all fcb_ok (formatted_inodes e s)"
    using assms root_fcb_ok [OF f]
    by (auto simp: formatted_inodes_def fresh_def list_all_iff
        dest!: set_update_subset_insert [THEN subsetD])
  show "list_all (\<lambda>f. number_ok (parent_inumber f)) (tl (formatted_inodes e s))"
    using assms by (cases "inodes s") (simp_all add: formatted_inodes_def fresh_def)
  show "cstr (fileName (formatted_inodes e s ! 0)) = Some ''/''"
    using l root_fcb_name [OF f] by (simp add: formatted_inodes_def)
qed

lemma sint_of_nat_small: "n \<le> 100 \<Longrightarrow> sint (of_nat n :: c_int) = int n"
  by (simp add: signed_of_nat signed_take_bit_int_eq_self)

lemma formatted_sBlock_geometry:
  assumes "fresh s" and "n \<le> 100"
  shows "geometry_ok (formatted_sBlock (sBlock s) n)"
  using assms
  by (simp add: geometry_ok_def formatted_sBlock_def fresh_def superblock_typed_def sint_of_nat_small)

lemma format_superblock_run:
  assumes "fresh s" and "0 \<le> diskSize s" and "format_range (diskSize s - 11744)"
  shows "format_superblock s = Some (formatted_sBlock (sBlock s) (format_count s))"
proof -
  let ?base = "(sBlock s)\<lparr>numInodesPerBlock := 4, inodeStartIndex := 3\<rparr>"
  have "wrap32 (diskSize s - 11744) = diskSize s - 11744"
    using assms(2,3) by (subst wrap32_id) (simp_all add: int_ok_def format_range_def)
  moreover have "format_loop (diskSize s - 11744) 0 0 ?base = Some (?base\<lparr>
      numInodes := of_nat (format_count s),
      numDataBlocks := numDataBlocks (sBlock s) + 15 * of_nat (format_count s)\<rparr>)"
    using format_loop_run [OF assms(3), of 0 ?base] assms(1) by (simp add: format_count_def fresh_def)
  moreover have "arr_set (ibmap (sBlock s)) 0 1 = Some ((ibmap (sBlock s))[0 := 1])"
    using assms(1) by (simp add: fresh_def superblock_typed_def arr_set_def)
  ultimately show ?thesis by (simp add: format_superblock_def formatted_sBlock_def)
qed

lemma format_flush_run:
  assumes "geometry_ok (sBlock s)" and "list_all fcb_ok (inodes s)" and "length (inodes s) = 100"
    and "dev_ok e (dev s)" and "n_inodes s = int n" and "n \<le> 100"
  shows "flushAllInodesTodisk e True s = Some (True, s\<lparr>
      sBlock := (sBlock s)\<lparr>ibmap := clear_range 1 (1 + (n - 2)) (ibmap (sBlock s))\<rparr>,
      dev := (dev s)\<lparr>disk :=
        write_all file_write (inode_writes e (inodes s) 1 (1 + (n - 2))) (disk (dev s))\<rparr>\<rparr>)"
proof -
  have "start_index s = 3" using assms(1) by (simp add: geometry_ok_def)
  then have pos: "(1, start_index s) = slot_pos 1" by (simp add: slot_pos_def)
  have "checked_int (int n - 1) = Some (int n - 1)"
    using assms(6) by (intro checked_int_Some) (simp add: int_ok_def)
  moreover have "nat (int n - 1 - 1) = n - 2" by simp
  ultimately show ?thesis
    using flush_first_loop_run [OF assms(1-4), of 1 "n - 2"] assms(5,6)
    by (simp add: flushAllInodesTodisk_def pos)
qed

lemma format_run:
  assumes "fresh s" and "dev_ok e (dev s)" and "0 \<le> diskSize s"
    and "format_range (diskSize s - 11744)" and "format_count s \<le> 100"
  shows "formatDisk e s = Some (1, formatted e s)"
proof -
  let ?n = "format_count s"
  let ?sb = "formatted_sBlock (sBlock s) ?n"
  let ?fcbs = "formatted_inodes e s"
  let ?s1 = "s\<lparr>sBlock := ?sb, inodes := ?fcbs\<rparr>"
  note fcbs = formatted_inodes_ok [OF assms(1), of e]
  have geo: "geometry_ok ?sb" by (rule formatted_sBlock_geometry [OF assms(1,5)])
  have sbb: "length (superblock_bytes ?sb) = 11744"
    using geo by (intro length_superblock_bytes) (simp add: geometry_ok_def)
  then have ne: "superblock_bytes ?sb \<noteq> []" by force
  let ?d1 = "(dev s)\<lparr>disk := file_write 0 (superblock_bytes ?sb) (disk (dev s))\<rparr>"
  have w1: "sBlock_write_padded e (dev s) 0 (superblock_bytes ?sb) 11744 = Some (11744, ?d1)"
    using sBlock_write_padded_run [OF assms(2) ne, of 0 "[]"] sbb by simp
  let ?d2 = "?d1\<lparr>disk := file_write (slot_offset 0) (fcb_bytes (inodes_addr e) (?fcbs ! 0)) (disk ?d1)\<rparr>"
  have "dev_ok e (dev (?s1\<lparr>dev := ?d1\<rparr>))" using assms(2) by (simp add: dev_ok_def)
  moreover have "fcb_ok (?fcbs ! 0)" using fcbs(1,2) by (simp add: list_all_length)
  ultimately have "block_write_padded e ?d1 (snd (slot_pos 0)) (inodes_memory e (?s1\<lparr>dev := ?d1\<rparr>) 0)
      (int sizeof_fcb) (wrap32 (fst (slot_pos 0) * int sizeof_fcb)) = Some (840, ?d2)"
    using write_inode_run [of e "?s1\<lparr>dev := ?d1\<rparr>" 0] fcbs(1) by simp
  moreover have "sint (inodeStartIndex ?sb) = 3" by (simp add: formatted_sBlock_def)
  ultimately have w2: "block_write_padded e ?d1 (sint (inodeStartIndex ?sb)) (inodes_memory e ?s1 0) 840 0
      = Some (840, ?d2)"
    by (simp add: slot_pos_def wrap32_def inodes_memory_def)
  let ?s2 = "?s1\<lparr>dev := ?d2\<rparr>"
  have "n_inodes ?s2 = int ?n" using assms(5) by (simp add: formatted_sBlock_def sint_of_nat_small)
  then have fl: "flushAllInodesTodisk e True ?s2 = Some (True, ?s2\<lparr>
      sBlock := ?sb\<lparr>ibmap := clear_range 1 (1 + (?n - 2)) (ibmap ?sb)\<rparr>,
      dev := ?d2\<lparr>disk := write_all file_write (inode_writes e ?fcbs 1 (1 + (?n - 2))) (disk ?d2)\<rparr>\<rparr>)"
    using format_flush_run [of ?s2 e ?n] geo fcbs(1,2) assms(2,5) by (simp add: dev_ok_def)
  have ig: "arr_get (inodes s) 0 = Some (inodes s ! 0)"
    and iset: "arr_set (inodes s) 0 (root_fcb e (inodes s ! 0)) = Some ?fcbs"
    using assms(1) by (simp_all add: fresh_def arr_set_def arr_get_def formatted_inodes_def)
  have final: "formatted e s = ?s2\<lparr>
      sBlock := ?sb\<lparr>ibmap := clear_range 1 (1 + (?n - 2)) (ibmap ?sb)\<rparr>,
      dev := ?d2\<lparr>disk := write_all file_write (inode_writes e ?fcbs 1 (1 + (?n - 2))) (disk ?d2)\<rparr>\<rparr>"
    by (simp add: formatted_def Let_def write_all_Cons inode_writes_Cons)
  show ?thesis
    using format_superblock_run [OF assms(1,3,4)] w1 w2 fl
    by (simp add: formatDisk_def ig iset final)
qed

lemma formatted_inv:
  assumes "fresh s" and "format_count s \<le> 100"
  shows "fs_inv (formatted e s)"
  using formatted_inodes_ok [OF assms(1), of e] formatted_sBlock_geometry [OF assms]
  by (simp add: fs_inv_def formatted_def Let_def geometry_ok_def superblock_typed_def)

end
