(* ===== verification/Sfs_Mount.thy ===== *)
theory Sfs_Mount
  imports Sfs_Ops Format
begin

unbundle bit_operations_syntax

text \<open>
  Starting and stopping (\<open>src/src/sfs.c\<close>): \<open>sfs_init\<close>, which loads a file
  system from the disk file or makes one, and \<open>sfs_destroy\<close>. Loading is shown to undo
  flushing for every inode but the last, and a disk file without a superblock is shown to
  give a file system without inodes.
\<close>

section \<open>The functions\<close>

text \<open>The effect on the data bitmap of an inode that was read.\<close>

definition mark_data :: "nat \<Rightarrow> fcb \<Rightarrow> byte list \<Rightarrow> byte list option" where
  "mark_data i f dbm =
     (if scast (fcb_mode f) AND (S_IFMT :: c_int) = S_IFDIR then Some dbm
      else if scast (fcb_mode f) AND (S_IFMT :: c_int) = S_IFREG
      then arr_set dbm (int i) (if sint (fileSize f) < 1 then 0 else 1)
      else Some dbm)"

text \<open>
  The loop of \<open>sfs_init\<close>, from index \<open>i\<close> with \<open>n\<close> rounds left. What \<open>inode_read\<close> leaves in
  the memory from \<open>&inodes[i]\<close> on is taken apart into inodes again; any result but 0, also
  an error, counts as success.
\<close>

fun init_loop :: "env \<Rightarrow> fs \<Rightarrow> nat \<Rightarrow> nat \<Rightarrow> int \<times> int \<Rightarrow> fs option" where
  "init_loop e s i 0 pos = Some s"
| "init_loop e s i (Suc n) pos = do {
     (isSucc, mem) \<leftarrow> inode_read sizeof_fcb e (dev s) (snd pos) (inodes_memory e s i)
       (wrap32 (fst pos * int sizeof_fcb));
     let s1 = s\<lparr>inodes := take i (inodes s) @
       array_of_bytes (fcb_of_bytes (inodes_addr e)) sizeof_fcb (length (inodes s) - i) mem\<rparr>;
     (if isSucc \<noteq> 0 then do {
        f \<leftarrow> arr_get (inodes s1) (int i);
        dbm \<leftarrow> mark_data i f (dbmap (sBlock s1));
        let s2 = s1\<lparr>sBlock := (sBlock s1)\<lparr>dbmap := dbm\<rparr>\<rparr>;
        init_loop e s2 (Suc i) n (next_slot s2 pos) }
      else init_loop e s1 (Suc i) n pos) }"

text \<open>
  The size of the disk file is cut down to an \<open>int\<close>. A superblock with another magic number
  is logged and used all the same.
\<close>

definition sfs_init :: "env \<Rightarrow> fs \<Rightarrow> fs option" where
  "sfs_init e s = do {
     d \<leftarrow> disk_open e (dev s);
     let s1 = s\<lparr>dev := d, diskSize := wrap32 (int (length (disk d)))\<rparr>;
     (ret, buf) \<leftarrow> sBlock_read e (dev s1) 0 (stack_buf e) sizeof_superblock;
     (if ret = 0 then do {
        (r, s2) \<leftarrow> formatDisk e s1;
        Some s2 }
      else if 0 \<le> ret then
        let s2 = s1\<lparr>sBlock := superblock_of_bytes buf\<rparr> in
        init_loop e s2 0 (nat (n_inodes s2)) (0, start_index s2)
      else Some s1) }"

definition sfs_destroy :: "env \<Rightarrow> fs \<Rightarrow> fs option" where
  "sfs_destroy e s = do {
     (r, s') \<leftarrow> flushAllInodesTodisk e False s;
     Some s' }"

section \<open>Loading the inodes\<close>

definition read_inode :: "env \<Rightarrow> byte list \<Rightarrow> nat \<Rightarrow> fcb" where
  "read_inode e f i = fcb_of_bytes (inodes_addr e) (file_read 840 (slot_offset i) f)"

text \<open>A list changed at the indices from \<open>lo\<close> up to \<open>hi\<close>.\<close>

definition map_range :: "(nat \<Rightarrow> 'a \<Rightarrow> 'a) \<Rightarrow> nat \<Rightarrow> nat \<Rightarrow> 'a list \<Rightarrow> 'a list" where
  "map_range g lo hi xs = map (\<lambda>j. if lo \<le> j \<and> j < hi then g j (xs ! j) else xs ! j) [0..<length xs]"

lemma length_map_range [simp]: "length (map_range g lo hi xs) = length xs"
  by (simp add: map_range_def)

lemma map_range_nth [simp]:
  "j < length xs \<Longrightarrow> map_range g lo hi xs ! j = (if lo \<le> j \<and> j < hi then g j (xs ! j) else xs ! j)"
  by (simp add: map_range_def)

lemma map_range_empty [simp]: "map_range g lo lo xs = xs"
  by (rule nth_equalityI) auto

lemma map_range_step:
  "lo < hi \<Longrightarrow> lo < length xs \<Longrightarrow> map_range g (Suc lo) hi (xs[lo := g lo (xs ! lo)]) = map_range g lo hi xs"
  by (rule nth_equalityI) (auto simp: nth_list_update)

text \<open>What the bitmap holds for an inode that was read: unchanged unless it is a file.\<close>

definition data_flag :: "fcb \<Rightarrow> byte \<Rightarrow> byte" where
  "data_flag f old =
     (if scast (fcb_mode f) AND (S_IFMT :: c_int) = S_IFREG then if sint (fileSize f) < 1 then 0 else 1
      else old)"

lemma mark_data_in:
  assumes "i < length dbm"
  shows "mark_data i f dbm = Some (dbm[i := data_flag f (dbm ! i)])"
proof -
  have "(S_IFDIR :: c_int) \<noteq> S_IFREG" by (simp add: S_IFDIR_def S_IFREG_def)
  with assms show ?thesis by (auto simp: mark_data_def data_flag_def)
qed

definition loaded :: "env \<Rightarrow> nat \<Rightarrow> nat \<Rightarrow> fs \<Rightarrow> fs" where
  "loaded e lo hi s = (let f = disk (dev s) in s\<lparr>
     inodes := map_range (\<lambda>j _. read_inode e f j) lo hi (inodes s),
     sBlock := (sBlock s)\<lparr>dbmap := map_range (\<lambda>j. data_flag (read_inode e f j)) lo hi (dbmap (sBlock s))\<rparr>\<rparr>)"

lemma read_inode_round:
  assumes "dev_ok e (dev s)" and "addr_ok (inodes_addr e)" and "length (inodes s) = 100"
    and "list_all (fcb_typed (inodes_addr e)) (inodes s)" and "i < 100"
    and "slot_offset i + 840 \<le> length (disk (dev s))"
  shows "\<exists>mem. inode_read 840 e (dev s) (snd (slot_pos i)) (inodes_memory e s i)
      (wrap32 (fst (slot_pos i) * 840)) = Some (840, mem) \<and>
    take i (inodes s) @ array_of_bytes (fcb_of_bytes (inodes_addr e)) 840 (length (inodes s) - i) mem
      = (inodes s)[i := read_inode e (disk (dev s)) i]"
proof -
  let ?a = "inodes_addr e"
  let ?bs = "file_read 840 (slot_offset i) (disk (dev s))"
  note rep = fcb_object_rep [OF assms(2)]
  have split: "drop i (inodes s) = inodes s ! i # drop (Suc i) (inodes s)"
    using assms(3,5) by (simp add: Cons_nth_drop_Suc)
  have valid: "\<forall>z \<in> set (inodes s ! i # drop (Suc i) (inodes s)). fcb_typed ?a z"
    using assms(4) split [symmetric] by (auto simp: list_all_iff dest: in_set_dropD)
  have mem: "inodes_memory e s i = array_bytes (fcb_bytes ?a) (inodes s ! i # drop (Suc i) (inodes s))"
    by (simp add: inodes_memory_def split)
  have "length (inodes_memory e s i) = 840 * length (inodes s ! i # drop (Suc i) (inodes s))"
    unfolding mem by (rule object_rep.length_array_bytes [OF rep valid])
  then have big: "840 \<le> length (inodes_memory e s i)" by simp
  have l: "length ?bs = 840" using assms(6) by (simp add: file_read_def)
  have rd: "inode_read 840 e (dev s) (snd (slot_pos i)) (inodes_memory e s i)
      (wrap32 (fst (slot_pos i) * 840)) = Some (840, blit ?bs (inodes_memory e s i))"
    using inode_read_full [OF assms(1) block_offset_slot [OF assms(5)] assms(6) _ big] by simp
  have "array_of_bytes (fcb_of_bytes ?a) 840 (Suc (length (drop (Suc i) (inodes s)))) (blit ?bs (inodes_memory e s i))
      = fcb_of_bytes ?a ?bs # drop (Suc i) (inodes s)"
    unfolding mem by (rule object_rep.array_of_blit_head [OF rep valid l])
  moreover have "Suc (length (drop (Suc i) (inodes s))) = length (inodes s) - i"
    using assms(3,5) by simp
  ultimately show ?thesis
    using rd assms(3,5) by (auto simp: read_inode_def upd_conv_take_nth_drop)
qed

lemma read_inode_typed:
  "slot_offset i + 840 \<le> length f \<Longrightarrow> fcb_typed (inodes_addr e) (read_inode e f i)"
  by (simp add: read_inode_def fcb_typed_of_bytes file_read_def)

lemma init_loop_run:
  assumes "dev_ok e (dev s)" and "addr_ok (inodes_addr e)" and "geometry_ok (sBlock s)"
    and "length (inodes s) = 100" and "list_all (fcb_typed (inodes_addr e)) (inodes s)"
    and "i + n \<le> 100" and "n = 0 \<or> slot_offset (i + n - 1) + 840 \<le> length (disk (dev s))"
  shows "init_loop e s i n (slot_pos i) = Some (loaded e i (i + n) s)"
  using assms
proof (induction n arbitrary: i s)
  case 0
  then show ?case by (simp add: loaded_def)
next
  case (Suc n)
  let ?f = "disk (dev s)"
  have i: "i < 100" using Suc.prems(6) by simp
  have "slot_offset i \<le> slot_offset (i + n)" using slot_offset_mono [of i "i + n"] by (cases "n = 0") auto
  then have sl: "slot_offset i + 840 \<le> length ?f" using Suc.prems(7) by simp
  from read_inode_round [OF Suc.prems(1,2,4,5) i sl] obtain mem where
    rd: "inode_read 840 e (dev s) (snd (slot_pos i)) (inodes_memory e s i)
      (wrap32 (fst (slot_pos i) * 840)) = Some (840, mem)"
    and arr: "take i (inodes s) @ array_of_bytes (fcb_of_bytes (inodes_addr e)) 840 (length (inodes s) - i) mem
      = (inodes s)[i := read_inode e ?f i]" by blast
  have dbl: "i < length (dbmap (sBlock s))"
    using Suc.prems(3) i by (simp add: geometry_ok_def superblock_typed_def)
  let ?s2 = "s\<lparr>inodes := (inodes s)[i := read_inode e ?f i],
    sBlock := (sBlock s)\<lparr>dbmap := (dbmap (sBlock s))[i := data_flag (read_inode e ?f i) (dbmap (sBlock s) ! i)]\<rparr>\<rparr>"
  have g: "geometry_ok (sBlock ?s2)"
    using Suc.prems(3) by (simp add: geometry_ok_def superblock_typed_def)
  have t: "list_all (fcb_typed (inodes_addr e)) (inodes ?s2)"
    using Suc.prems(5) read_inode_typed [OF sl]
    by (auto simp: list_all_iff dest: set_update_subset_insert [THEN subsetD])
  have "init_loop e s i (Suc n) (slot_pos i) = init_loop e ?s2 (Suc i) n (slot_pos (Suc i))"
    using rd arr i Suc.prems(4) mark_data_in [OF dbl] next_slot_pos [OF g] by (simp add: Let_def)
  also have "\<dots> = Some (loaded e (Suc i) (Suc i + n) ?s2)"
    using Suc.prems g t by (intro Suc.IH) auto
  also have "loaded e (Suc i) (Suc i + n) ?s2 = loaded e i (i + Suc n) s"
    using map_range_step [of i "i + Suc n" "inodes s" "\<lambda>j _. read_inode e ?f j"]
      map_range_step [of i "i + Suc n" "dbmap (sBlock s)" "\<lambda>j. data_flag (read_inode e ?f j)"] dbl i Suc.prems(4)
    by (simp add: loaded_def Let_def)
  finally show ?case .
qed

section \<open>Mounting what was flushed\<close>

text \<open>The platform of a fresh process: the disk file opens, and \<open>buf\<close> has its size.\<close>

definition mount_ok :: "env \<Rightarrow> bool" where
  "mount_ok e \<longleftrightarrow> env_ok e \<and> 0 \<le> open_result e \<and> length (stack_buf e) = sizeof_superblock"

definition opened :: "env \<Rightarrow> byte list \<Rightarrow> fs" where
  "opened e f = (fs0 f)\<lparr>dev := \<lparr>diskfile = open_result e, fd_open = True, disk = f\<rparr>,
     diskSize := wrap32 (int (length f))\<rparr>"

lemma opened_simps [simp]:
  "disk (dev (opened e f)) = f" "inodes (opened e f) = replicate 100 fcb0"
  "sBlock (opened e f) = superblock0" "errno (opened e f) = 0"
  "diskSize (opened e f) = wrap32 (int (length f))"
  by (simp_all add: opened_def fs0_def)

lemma dev_ok_opened: "mount_ok e \<Longrightarrow> dev_ok e (dev (opened e f))"
  by (simp add: mount_ok_def env_ok_def dev_ok_def opened_def)

lemma sfs_init_open:
  assumes "mount_ok e"
  shows "sfs_init e (fs0 f) = do {
    (ret, buf) \<leftarrow> sBlock_read e (dev (opened e f)) 0 (stack_buf e) sizeof_superblock;
    (if ret = 0 then do { (r, s2) \<leftarrow> formatDisk e (opened e f); Some s2 }
     else if 0 \<le> ret then
       let s2 = (opened e f)\<lparr>sBlock := superblock_of_bytes buf\<rparr> in
       init_loop e s2 0 (nat (n_inodes s2)) (0, start_index s2)
     else Some (opened e f)) }"
proof -
  have d: "disk_open e (dev (fs0 f)) = Some (dev (opened e f))"
    using assms by (simp add: disk_open_def mount_ok_def opened_def fs0_def device0_def Let_def)
  have s: "(fs0 f)\<lparr>dev := dev (opened e f), diskSize := wrap32 (int (length (disk (dev (opened e f)))))\<rparr>
      = opened e f"
    by (simp add: opened_def)
  show ?thesis unfolding sfs_init_def Let_def d Option.bind.bind_lunit s by (rule refl)
qed

lemma sfs_init_load:
  assumes "mount_ok e" and "11744 \<le> length f" and "geometry_ok (superblock_of_bytes (take 11744 f))"
    and "n = nat (sint (numInodes (superblock_of_bytes (take 11744 f))))"
    and "n = 0 \<or> slot_offset (n - 1) + 840 \<le> length f"
  shows "sfs_init e (fs0 f) =
    Some (loaded e 0 n ((opened e f)\<lparr>sBlock := superblock_of_bytes (take 11744 f)\<rparr>))"
proof -
  let ?s = "(opened e f)\<lparr>sBlock := superblock_of_bytes (take 11744 f)\<rparr>"
  have n: "n \<le> 100" using assms(3,4) by (simp add: geometry_ok_def) linarith
  have sl: "(0, start_index ?s) = slot_pos 0"
    using assms(3) by (simp add: slot_pos_def geometry_ok_def)
  have "list_all (fcb_typed (inodes_addr e)) (inodes ?s)"
    using fcb0_ok by (simp add: list_all_iff fcb_ok_typed)
  then have "init_loop e ?s 0 n (slot_pos 0) = Some (loaded e 0 (0 + n) ?s)"
    using assms n dev_ok_opened [OF assms(1)]
    by (intro init_loop_run) (simp_all add: mount_ok_def env_ok_def)
  moreover have "sBlock_read e (dev (opened e f)) 0 (stack_buf e) 11744 = Some (11744, take 11744 f)"
    using sBlock_read_full [OF dev_ok_opened [OF assms(1)], of 11744 f] assms(1,2)
    by (simp add: mount_ok_def)
  ultimately show ?thesis
    using sl assms(4) by (simp add: sfs_init_open [OF assms(1)] Let_def)
qed

text \<open>The disk file reaches to the end of the slot of the last inode.\<close>

definition holds_last :: "fs \<Rightarrow> bool" where
  "holds_last s \<longleftrightarrow> slot_offset (nat (n_inodes s) - 1) + 840 \<le> length (disk (dev s))"

lemma length_flushed: "length (disk (dev s)) \<le> length (disk (dev (flushed e s)))"
  by (simp add: flushed_def disk_store.extent_write_all)

text \<open>
  The process that mounts, with \<open>e'\<close>, is another one than the process that flushed, with \<open>e\<close>;
  in particular its array of inodes may be at another address.
\<close>

lemma remount_run:
  assumes "fs_inv s" and "env_ok e" and "mount_ok e'" and "holds_last s"
  shows "sfs_init e' (fs0 (disk (dev (flushed e s)))) = Some (loaded e' 0 (nat (n_inodes s))
    ((opened e' (disk (dev (flushed e s))))\<lparr>sBlock := sBlock s\<rparr>))"
proof -
  let ?f = "disk (dev (flushed e s))"
  have g: "geometry_ok (sBlock s)" using assms(1) by (simp add: fs_inv_def)
  have "take 11744 ?f = superblock_bytes (sBlock s)"
    using flushed_superblock [OF assms(1,2)] by (simp add: file_read_def)
  then have sb: "superblock_of_bytes (take 11744 ?f) = sBlock s"
    using g by (simp add: geometry_ok_def superblock_of_superblock_bytes)
  have "slot_offset (nat (n_inodes s) - 1) + 840 \<le> length ?f"
    using assms(4) length_flushed [of s e] by (simp add: holds_last_def)
  moreover have "11744 \<le> length ?f" using flushed_extent [OF assms(1,2)] by simp
  ultimately show ?thesis
    using sfs_init_load [OF assms(3), of ?f "nat (n_inodes s)"] g by (simp add: sb)
qed

text \<open>An inode read at the other address: its pointers still point to the old one.\<close>

lemma read_inode_at:
  assumes "fs_inv s" and "env_ok e" and "int i < n_inodes s - 1"
  shows "read_inode e' (disk (dev (flushed e s))) i = (inodes s ! i)\<lparr>dirContents :=
    map (\<lambda>p. ptr_of_value (inodes_addr e') (ptr_value (inodes_addr e) p)) (dirContents (inodes s ! i))\<rparr>"
proof -
  have "i < 100" using assms(3) fs_inv_count [OF assms(1)] by linarith
  then have "fcb_sized (inodes s ! i)" using fs_inv_fcb [OF assms(1)] by (simp add: fcb_ok_def)
  then show ?thesis
    using flushed_inode [OF assms] by (simp add: read_inode_def fcb_of_fcb_bytes_at)
qed

lemma read_inode_flushed:
  assumes "fs_inv s" and "env_ok e" and "int i < n_inodes s - 1"
  shows "read_inode e (disk (dev (flushed e s))) i = inodes s ! i"
proof -
  have "i < 100" using assms(3) fs_inv_count [OF assms(1)] by linarith
  then show ?thesis
    using flushed_inode [OF assms] fs_inv_fcb [OF assms(1)] assms(2)
    by (simp add: read_inode_def fcb_of_fcb_bytes fcb_ok_typed env_ok_def)
qed

lemma read_inode_last:
  assumes "fs_inv s" and "env_ok e" and "holds_last s"
  shows "read_inode e' (disk (dev (flushed e s))) (nat (n_inodes s) - 1)
    = read_inode e' (disk (dev s)) (nat (n_inodes s) - 1)"
proof -
  have "n_inodes s - 1 \<le> int (nat (n_inodes s) - 1)" by linarith
  from flushed_beyond [OF assms(1,2) this, of "slot_offset (nat (n_inodes s) - 1)" 840] assms(3)
  show ?thesis by (simp add: read_inode_def holds_last_def)
qed

section \<open>A mounted file system satisfies the invariant\<close>

text \<open>What the inodes read from the disk file have to be.\<close>

definition image_ok :: "env \<Rightarrow> byte list \<Rightarrow> nat \<Rightarrow> bool" where
  "image_ok e f n \<longleftrightarrow> (\<forall>i<n. fcb_ok (read_inode e f i) \<and> (0 < i \<longrightarrow> number_ok (parent_inumber (read_inode e f i)))) \<and>
     0 < n \<and> cstr (fileName (read_inode e f 0)) = Some ''/''"

lemma loaded_inv:
  assumes "geometry_ok sb" and "image_ok e f n" and "n \<le> 100"
  shows "fs_inv (loaded e 0 n ((opened e f)\<lparr>sBlock := sb\<rparr>))"
proof -
  let ?t = "loaded e 0 n ((opened e f)\<lparr>sBlock := sb\<rparr>)"
  have nth: "inodes ?t ! i = (if i < n then read_inode e f i else fcb0)" if "i < 100" for i
    using that by (simp add: loaded_def Let_def)
  have z: "number_ok (parent_inumber fcb0)" by (simp add: number_ok_def fcb0_def)
  have l: "length (inodes ?t) = 100" by (simp add: loaded_def Let_def)
  have "fcb_ok (inodes ?t ! i)" if "i < 100" for i
    using nth [OF that] assms(2) fcb0_ok by (simp add: image_ok_def)
  moreover have "number_ok (parent_inumber (inodes ?t ! Suc i))" if "Suc i < 100" for i
    using nth [OF that] assms(2) z by (simp add: image_ok_def)
  moreover have "cstr (fileName (inodes ?t ! 0)) = Some ''/''"
    using nth [of 0] assms(2) by (simp add: image_ok_def)
  moreover have "geometry_ok (sBlock ?t)"
    using assms(1) by (simp add: loaded_def Let_def geometry_ok_def superblock_typed_def)
  ultimately show ?thesis using l by (simp add: fs_inv_def list_all_length nth_tl)
qed

text \<open>After a flush only the last inode is in question.\<close>

lemma image_ok_flushed:
  assumes "fs_inv s" and "env_ok e" and "1 < n_inodes s" and "holds_last s"
    and "fcb_ok (read_inode e (disk (dev s)) (nat (n_inodes s) - 1))"
    and "number_ok (parent_inumber (read_inode e (disk (dev s)) (nat (n_inodes s) - 1)))"
  shows "image_ok e (disk (dev (flushed e s))) (nat (n_inodes s))"
proof -
  let ?f = "disk (dev (flushed e s))"
  have n: "nat (n_inodes s) \<le> 100" by (rule fs_inv_count [OF assms(1)])
  have "fcb_ok (read_inode e ?f i) \<and> (0 < i \<longrightarrow> number_ok (parent_inumber (read_inode e ?f i)))"
    if "i < nat (n_inodes s)" for i
  proof (cases "int i < n_inodes s - 1")
    case True
    then show ?thesis
      using read_inode_flushed [OF assms(1,2) True] fs_inv_fcb [OF assms(1)] fs_inv_parent [OF assms(1)] that n
      by simp
  next
    case False
    then have "i = nat (n_inodes s) - 1" using that by linarith
    then show ?thesis using read_inode_last [OF assms(1,2,4)] assms(5,6) by simp
  qed
  moreover have "cstr (fileName (read_inode e ?f 0)) = Some ''/''"
    using read_inode_flushed [OF assms(1,2), of 0] assms(1,3) by (simp add: fs_inv_def)
  ultimately show ?thesis using assms(3) by (simp add: image_ok_def)
qed

lemma le_word_zeros: "le_word (replicate m 0) = (0 :: 'a::len word)"
proof -
  have "le_val (replicate m 0) = 0" by (induction m) simp_all
  then show ?thesis by (simp add: le_word_def)
qed

lemma read_inode_zeros:
  assumes "file_read 840 (slot_offset i) f = replicate 840 0"
  shows "fcb_ok (read_inode e f i) \<and> number_ok (parent_inumber (read_inode e f i))"
proof -
  have c: "char_of_byte 0 = NUL" using char_of_byte_of_char [of NUL] by (simp add: byte_of_char_def)
  have "cstr (replicate 256 NUL) = Some []" by (simp add: numeral_eq_Suc)
  moreover have "ptr_of_value a 0 = Null" for a by (simp add: ptr_of_value_def)
  moreover have "chunks 8 30 (replicate 240 (0 :: byte)) = replicate 30 (replicate 8 0)"
    by (simp add: numeral_eq_Suc)
  ultimately show ?thesis
    unfolding read_inode_def assms
    by (simp add: fcb_of_bytes_def member_bytes_def c fcb_ok_def fcb_sized_def names_ok_def dir_ok_def
        dir_packed_def ptr_ok_def number_ok_def list_all_iff le_word_zeros)
qed

section \<open>Mounting a file without a superblock\<close>

lemma blank_numInodes:
  assumes "8 \<le> m"
  shows "numInodes (superblock_of_bytes (replicate m 0 @ b)) = 0"
proof -
  have "member_bytes 4 4 (replicate m 0 @ b) = replicate 4 (0 :: byte)"
    using assms by (simp add: member_bytes_def)
  moreover have "le_word (replicate 4 (0 :: byte)) = (0 :: c_int)"
    by (simp add: le_word_def numeral_eq_Suc)
  ultimately show ?thesis by (simp add: superblock_of_bytes_def)
qed

lemma sfs_init_blank:
  assumes "mount_ok e" and "8 \<le> n"
  shows "\<exists>t. sfs_init e (fs0 (replicate n 0)) = Some t \<and> numInodes (sBlock t) = 0 \<and> errno t = 0"
proof -
  let ?f = "replicate n (0 :: byte)"
  let ?m = "min n 11744"
  have "sBlock_read e (dev (opened e ?f)) 0 (stack_buf e) 11744
      = Some (int ?m, replicate ?m 0 @ drop ?m (stack_buf e))"
    using assms(1) live_fd_ok [OF dev_ok_opened [OF assms(1)], of ?f] pread_ok [of e _ _ _ 0]
    by (simp add: sBlock_read_def Let_def file_read_def blit_def mount_ok_def min.commute)
      (use assms(2) in \<open>simp add: min_def\<close>)
  moreover have "numInodes (superblock_of_bytes (replicate ?m 0 @ drop ?m (stack_buf e))) = 0"
    using assms(2) by (intro blank_numInodes) simp
  ultimately show ?thesis
    by (simp add: sfs_init_open [OF assms(1)] Let_def) (use assms(2) in \<open>simp add: min_def\<close>)
qed

lemma sfs_init_empty:
  assumes "mount_ok e"
  shows "sfs_init e (fs0 []) = Some (formatted e (opened e [])) \<and> numInodes (sBlock (formatted e (opened e []))) = 0
    \<and> errno (formatted e (opened e [])) = 0"
proof -
  have w: "wrap32 0 = 0" by (simp add: wrap32_def)
  have fr: "fresh (opened e [])" unfolding opened_def by (simp add: fresh_fs0)
  have c: "format_count (opened e []) = 0"
    by (simp add: format_count_def inode_count_nonpositive w)
  have "sBlock_read e (dev (opened e [])) 0 (stack_buf e) 11744 = Some (0, replicate 11744 0)"
    using sBlock_read_empty [OF dev_ok_opened [OF assms]] assms by (simp add: mount_ok_def)
  moreover have "formatDisk e (opened e []) = Some (1, formatted e (opened e []))"
    using format_run [OF fr dev_ok_opened [OF assms]] c by (simp add: w format_range_def)
  ultimately show ?thesis
    using c by (simp add: sfs_init_open [OF assms] formatted_def formatted_sBlock_def Let_def)
qed

lemma no_inodes_no_create:
  "numInodes (sBlock s) = 0 \<Longrightarrow> create_inode e s p mode = Some (Null, s)"
  by (simp add: create_inode_def)

end
