(* ===== verification/Sfs_Machine.thy ===== *)
theory Sfs_Machine
  imports Sfs_Mount
begin

text \<open>
  The mounted file system as a state machine: FUSE calls one callback of the table
  \<open>sfs_oper\<close> (\<open>src/src/sfs.c\<close>) after another, each on the state the one before left. The
  environment may differ from call to call. The invariant is carried along a run by rule
  induction, and the calls that are not defined are determined exactly.
\<close>

section \<open>The callback table\<close>

datatype request =
    Getattr string "stat option"
  | Create string c_int
  | Unlink string
  | Open string
  | Release string
  | Read string "byte list" c_long c_long
  | Write string "byte list" c_long c_long
  | Rmdir string
  | Mkdir string c_int
  | Opendir string
  | Readdir string
  | Releasedir string

text \<open>What a callback gives back: its result, and what it wrote for the caller.\<close>

datatype reply =
    Code int
  | Attributes int "stat option"
  | Data int "byte list"
  | Names int "string list"

definition code_reply :: "(int \<times> fs) option \<Rightarrow> (reply \<times> fs) option" where
  "code_reply = map_option (\<lambda>(r, s). (Code r, s))"

fun sfs_oper :: "env \<Rightarrow> request \<Rightarrow> fs \<Rightarrow> (reply \<times> fs) option" where
  "sfs_oper e (Getattr p st) s = map_option (\<lambda>(r, st', s'). (Attributes r st', s')) (sfs_getattr e s p st)"
| "sfs_oper e (Create p m) s = code_reply (sfs_create e s p m)"
| "sfs_oper e (Unlink p) s = code_reply (sfs_unlink e s p)"
| "sfs_oper e (Open p) s = code_reply (sfs_open e s p)"
| "sfs_oper e (Release p) s = code_reply (sfs_release e s p)"
| "sfs_oper e (Read p b n off) s = map_option (\<lambda>(r, b', s'). (Data r b', s')) (sfs_read e s p b n off)"
| "sfs_oper e (Write p b n off) s = code_reply (sfs_write e s p b n off)"
| "sfs_oper e (Rmdir p) s = code_reply (sfs_rmdir e s p)"
| "sfs_oper e (Mkdir p m) s = code_reply (sfs_mkdir e s p m)"
| "sfs_oper e (Opendir p) s = code_reply (sfs_opendir e s p)"
| "sfs_oper e (Readdir p) s = map_option (\<lambda>(r, ns, s'). (Names r ns, s')) (sfs_readdir e s p)"
| "sfs_oper e (Releasedir p) s = code_reply (sfs_releasedir s p)"

text \<open>One served call, and a run of them.\<close>

inductive fs_step :: "fs \<Rightarrow> env \<times> request \<Rightarrow> reply \<Rightarrow> fs \<Rightarrow> bool" where
  served: "sfs_oper e r s = Some (a, s') \<Longrightarrow> fs_step s (e, r) a s'"

inductive_cases fs_stepE: "fs_step s (e, r) a s'"
inductive_simps fs_step_iff: "fs_step s (e, r) a s'"

inductive fs_run :: "fs \<Rightarrow> (env \<times> request) list \<Rightarrow> reply list \<Rightarrow> fs \<Rightarrow> bool" where
  run_Nil: "fs_run s [] [] s"
| run_Cons: "fs_step s x a t \<Longrightarrow> fs_run t xs as u \<Longrightarrow> fs_run s (x # xs) (a # as) u"

inductive_cases fs_run_NilE: "fs_run s [] as u"
inductive_cases fs_run_ConsE: "fs_run s (x # xs) as u"

text \<open>The same as a function.\<close>

fun serve_all :: "(env \<times> request) list \<Rightarrow> fs \<Rightarrow> (reply list \<times> fs) option" where
  "serve_all [] s = Some ([], s)"
| "serve_all ((e, r) # xs) s = do {
     (a, t) \<leftarrow> sfs_oper e r s;
     (as, u) \<leftarrow> serve_all xs t;
     Some (a # as, u) }"

lemma serve_all_run: "serve_all xs s = Some (as, u) \<Longrightarrow> fs_run s xs as u"
proof (induction xs s arbitrary: as u rule: serve_all.induct)
  case (1 s)
  then show ?case by (simp add: run_Nil)
next
  case (2 e r xs s)
  then show ?case
    by (auto simp: fs_step_iff dest!: option_bind_SomeD intro!: run_Cons)
qed

lemma run_serve_all: "fs_run s xs as u \<Longrightarrow> serve_all xs s = Some (as, u)"
  by (induction rule: fs_run.induct) (auto elim!: fs_step.cases)

section \<open>The interface: a service with an invariant\<close>

text \<open>
  What is asked of a service: a run is a sequence of its steps, and an admissible call
  keeps the invariant. What follows: runs compose, each call has its reply, and the
  invariant holds after every run, however long.
\<close>

locale service =
  fixes step :: "'s \<Rightarrow> 'c \<Rightarrow> 'a \<Rightarrow> 's \<Rightarrow> bool"
    and run :: "'s \<Rightarrow> 'c list \<Rightarrow> 'a list \<Rightarrow> 's \<Rightarrow> bool"
    and inv :: "'s \<Rightarrow> bool"
    and admissible :: "'c \<Rightarrow> bool"
  assumes run_Nil_iff: "run s [] as u \<longleftrightarrow> as = [] \<and> u = s"
    and run_Cons_iff: "run s (c # cs) as u \<longleftrightarrow> (\<exists>a bs t. as = a # bs \<and> step s c a t \<and> run t cs bs u)"
    and inv_step: "inv s \<Longrightarrow> admissible c \<Longrightarrow> step s c a t \<Longrightarrow> inv t"
begin

lemma inv_run: "run s cs as u \<Longrightarrow> inv s \<Longrightarrow> list_all admissible cs \<Longrightarrow> inv u"
  by (induction cs arbitrary: s as) (auto simp: run_Nil_iff run_Cons_iff dest: inv_step)

lemma run_replies: "run s cs as u \<Longrightarrow> length as = length cs"
  by (induction cs arbitrary: s as) (auto simp: run_Nil_iff run_Cons_iff)

lemma run_append:
  "run s (cs @ ds) as u \<longleftrightarrow> (\<exists>bs es t. as = bs @ es \<and> run s cs bs t \<and> run t ds es u)"
proof (induction cs arbitrary: s as)
  case Nil
  then show ?case by (simp add: run_Nil_iff)
next
  case (Cons c cs)
  show ?case
    by (simp add: run_Cons_iff Cons.IH) (metis append_Cons)
qed

end

text \<open>
  Admissible calls: the platform reports no error, the path is a string, and a path to be
  created fits into the name arrays.
\<close>

fun request_path :: "request \<Rightarrow> string" where
  "request_path (Getattr p st) = p"
| "request_path (Create p m) = p"
| "request_path (Unlink p) = p"
| "request_path (Open p) = p"
| "request_path (Release p) = p"
| "request_path (Read p b n off) = p"
| "request_path (Write p b n off) = p"
| "request_path (Rmdir p) = p"
| "request_path (Mkdir p m) = p"
| "request_path (Opendir p) = p"
| "request_path (Readdir p) = p"
| "request_path (Releasedir p) = p"

fun creates :: "request \<Rightarrow> bool" where
  "creates (Create p m) = True"
| "creates (Mkdir p m) = True"
| "creates r = False"

fun removes :: "request \<Rightarrow> bool" where
  "removes (Unlink p) = True"
| "removes (Rmdir p) = True"
| "removes r = False"

definition call_ok :: "env \<times> request \<Rightarrow> bool" where
  "call_ok = (\<lambda>(e, r). env_ok e \<and> cstring (request_path r) \<and> (creates r \<longrightarrow> path_fits e (request_path r)))"

definition removes_root :: "request \<Rightarrow> bool" where
  "removes_root r \<longleftrightarrow> removes r \<and> request_path r = ''/''"

text \<open>The invariant of a mounted file system, with the disk file open.\<close>

definition mounted_inv :: "fs \<Rightarrow> bool" where
  "mounted_inv s \<longleftrightarrow> fs_inv s \<and> 0 \<le> diskfile (dev s) \<and> fd_open (dev s)"

lemma mounted_dev_ok: "mounted_inv s \<Longrightarrow> env_ok e \<Longrightarrow> dev_ok e (dev s)"
  by (simp add: mounted_inv_def dev_ok_def env_ok_def)

lemma mounted_of_dev_ok: "fs_inv s \<Longrightarrow> dev_ok e (dev s) \<Longrightarrow> mounted_inv s"
  by (simp add: mounted_inv_def dev_ok_def)

lemma mounted_other [simp]:
  "mounted_inv (s\<lparr>errno := n\<rparr>) = mounted_inv s" "mounted_inv (s\<lparr>diskSize := z\<rparr>) = mounted_inv s"
  by (simp_all add: mounted_inv_def)

section \<open>Each call keeps the invariant\<close>

lemma create_mounted:
  assumes "mounted_inv s" and "env_ok e" and "path_fits e p"
  shows "\<exists>r t. create_inode e s p mode = Some (r, t) \<and> mounted_inv t"
  using create_inode_inv [OF _ assms(2) mounted_dev_ok [OF assms(1,2)] assms(3), of mode] assms(1)
  by (auto simp: mounted_inv_def dev_ok_def)

lemma remove_mounted:
  assumes "mounted_inv s" and "env_ok e" and "cstring p" and "p \<noteq> ''/''"
  shows "\<exists>r t. remove_inode e s p = Some (r, t) \<and> mounted_inv t"
  using remove_inode_inv [OF _ assms(2) mounted_dev_ok [OF assms(1,2)] assms(3,4)] assms(1)
  by (auto simp: mounted_inv_def dev_ok_def)

text \<open>The listing is defined when the directory, if there is one, has a gap.\<close>

definition full_directory :: "env \<Rightarrow> fs \<Rightarrow> string \<Rightarrow> bool" where
  "full_directory e s p \<longleftrightarrow>
     (case findFileOrDir e s p of Some (Inode k) \<Rightarrow> Null \<notin> set (dirContents (inodes s ! k)) | _ \<Rightarrow> False)"

definition lists_full :: "env \<Rightarrow> request \<Rightarrow> fs \<Rightarrow> bool" where
  "lists_full e r s \<longleftrightarrow> (case r of Readdir p \<Rightarrow> full_directory e s p | _ \<Rightarrow> False)"

lemma readdir_mounted:
  assumes "fs_inv s" and "cstring p"
  shows "if full_directory e s p then sfs_readdir e s p = None
    else \<exists>r ns. sfs_readdir e s p = Some (r, ns, s)"
  using find_total [OF assms, of e] sfs_readdir_run [OF assms, of e]
  by (cases rule: find_total [OF assms, of e]) (simp_all add: full_directory_def)

lemma sfs_oper_mounted:
  assumes "mounted_inv s" and "call_ok (e, r)" and "\<not> removes_root r" and "\<not> lists_full e r s"
  shows "\<exists>a t. sfs_oper e r s = Some (a, t) \<and> mounted_inv t"
proof -
  have i: "fs_inv s" and e: "env_ok e" and p: "cstring (request_path r)"
    using assms(1,2) by (simp_all add: mounted_inv_def call_ok_def)
  have ans: "mounted_inv (snd (find_answer e s q))" for q
    using assms(1) by (simp add: find_answer_def)
  note f = find_callbacks [OF i]
  show ?thesis
  proof (cases r)
    case (Getattr q st)
    with sfs_getattr_run [OF i, of q e st] p assms(1) show ?thesis by auto
  next
    case (Create q m)
    with create_mounted [OF assms(1) e, of q m] assms(2) show ?thesis
      by (auto simp: call_ok_def sfs_create_def code_reply_def)
  next
    case (Unlink q)
    with remove_mounted [OF assms(1) e, of q] p assms(3) show ?thesis
      by (auto simp: removes_root_def sfs_unlink_def code_reply_def Let_def)
  next
    case (Rmdir q)
    with remove_mounted [OF assms(1) e, of q] p assms(3) show ?thesis
      by (auto simp: removes_root_def sfs_rmdir_def code_reply_def Let_def)
  next
    case (Mkdir q m)
    with create_mounted [OF assms(1) e, of q S_IFDIR] create_mounted [OF assms(1) e, of q S_IFREG]
      assms(1,2) show ?thesis
      by (auto simp: call_ok_def sfs_mkdir_def code_reply_def)
  next
    case (Write q b n off)
    with sfs_write_run [OF i, of q e b n off] p assms(1) show ?thesis by (simp add: code_reply_def)
  next
    case (Readdir q)
    with readdir_mounted [OF i, of q e] p assms(1,4) show ?thesis by (auto simp: lists_full_def)
  next
    case (Releasedir q)
    with assms(1) show ?thesis by (simp add: sfs_releasedir_def code_reply_def)
  qed (use f p ans in \<open>simp_all add: code_reply_def case_prod_unfold\<close>)
qed

text \<open>
  The root keeps its parent number: \<open>formatDisk\<close> sets it to \<open>-1\<close>, so removing the root
  forms the address of \<open>inodes[-1]\<close>.
\<close>

definition rooted_inv :: "fs \<Rightarrow> bool" where
  "rooted_inv s \<longleftrightarrow> mounted_inv s \<and> parent_inumber (inodes s ! 0) = - 1"

text \<open>
  What a call leaves behind: the state it was given, up to \<open>errno\<close>, or the flush of a state with
  the same disk file, the same number of inodes and the same root.
\<close>

definition outcome :: "env \<Rightarrow> fs \<Rightarrow> fs \<Rightarrow> bool" where
  "outcome e s t \<longleftrightarrow> (\<exists>n. t = s\<lparr>errno := n\<rparr>) \<or>
     (\<exists>u. t = flushed e u \<and> fs_inv u \<and> dev u = dev s \<and> numInodes (sBlock u) = numInodes (sBlock s) \<and>
       parent_inumber (inodes u ! 0) = parent_inumber (inodes s ! 0))"

lemma outcome_errno [intro]: "outcome e s t \<Longrightarrow> outcome e s (t\<lparr>errno := n\<rparr>)"
proof -
  have "(flushed e u)\<lparr>errno := n\<rparr> = flushed e (u\<lparr>errno := n\<rparr>)" for u
    by (simp add: flushed_def flush_writes_def)
  moreover have "fs_inv (u\<lparr>errno := n\<rparr>) = fs_inv u" for u by (simp add: fs_inv_def)
  moreover have "dev (u\<lparr>errno := n\<rparr>) = dev u" "sBlock (u\<lparr>errno := n\<rparr>) = sBlock u"
    "inodes (u\<lparr>errno := n\<rparr>) = inodes u" for u by simp_all
  moreover have "s\<lparr>errno := m\<rparr>\<lparr>errno := n\<rparr> = s\<lparr>errno := n\<rparr>" for m by simp
  ultimately show "outcome e s t \<Longrightarrow> outcome e s (t\<lparr>errno := n\<rparr>)" unfolding outcome_def by metis
qed

lemma outcome_same [intro]: "outcome e s s" "outcome e s (s\<lparr>errno := n\<rparr>)"
  using errno_self [of s] by (auto simp: outcome_def)

lemma outcome_root: "outcome e s t \<Longrightarrow> parent_inumber (inodes t ! 0) = parent_inumber (inodes s ! 0)"
  by (auto simp: outcome_def)

lemma create_outcome:
  assumes "mounted_inv s" and "env_ok e" and "path_fits e p" and "create_inode e s p mode = Some (r, t)"
  shows "outcome e s t"
proof -
  have i: "fs_inv s" using assms(1) by (simp add: mounted_inv_def)
  show ?thesis
  proof (rule create_inode_cases [OF i assms(2) mounted_dev_ok [OF assms(1,2)] assms(3), of mode])
    assume "create_inode e s p mode = Some (Null, s)"
    then show ?thesis using assms(4) by auto
  next
    fix i k q
    let ?u = "created e s (relativeName p) q mode k i"
    assume c: "create_inode e s p mode = Some (Inode i, flushed e ?u)" and "0 < i"
    with assms(4) have t: "t = flushed e ?u" and "create_inode e s p mode = Some (r, flushed e ?u)" by auto
    then have "fs_inv (flushed e ?u)"
      using create_inode_inv [OF i assms(2) mounted_dev_ok [OF assms(1,2)] assms(3), of mode] by auto
    moreover have "parent_inumber (inodes ?u ! 0) = parent_inumber (inodes s ! 0)"
      using \<open>0 < i\<close> by (simp add: created_def link_inodes_names)
    moreover have "dev ?u = dev s" "numInodes (sBlock ?u) = numInodes (sBlock s)"
      by (simp_all add: created_def)
    ultimately show ?thesis using t unfolding outcome_def fs_inv_flushed by blast
  qed
qed

lemma remove_outcome:
  assumes "mounted_inv s" and "env_ok e" and "cstring p" and "p \<noteq> ''/''"
    and "remove_inode e s p = Some (r, t)"
  shows "outcome e s t"
proof -
  have i: "fs_inv s" using assms(1) by (simp add: mounted_inv_def)
  show ?thesis
  proof (rule find_total [OF i assms(3), of e])
    assume "findFileOrDir e s p = Some Null"
    then show ?thesis using remove_inode_missing assms(5) by auto
  next
    fix c assume f: "findFileOrDir e s p = Some (Inode c)"
    let ?u = "removed_at s (nat (sint (parent_inumber (inodes s ! c)))) c"
    have t: "t = flushed e ?u"
      using remove_inode_run [OF i assms(2) mounted_dev_ok [OF assms(1,2)] assms(3,4) f] assms(5) by simp
    have "fs_inv t"
      using remove_inode_inv [OF i assms(2) mounted_dev_ok [OF assms(1,2)] assms(3,4)] assms(5) by auto
    then have "fs_inv ?u" by (simp add: t)
    moreover have "dev ?u = dev s" "numInodes (sBlock ?u) = numInodes (sBlock s)"
      by (simp_all add: removed_at_def Let_def split: option.split)
    ultimately show ?thesis using t removed_names(4) unfolding outcome_def by blast
  qed
qed

lemma remove_root_undefined:
  assumes "fs_inv s" and "parent_inumber (inodes s ! 0) = - 1"
  shows "remove_inode e s ''/'' = None"
  using findRoot_inv [OF assms(1)] getParentFcb_root_undefined [OF assms]
  by (simp add: remove_inode_def findFileOrDir_def)

lemma removes_root_undefined:
  assumes "rooted_inv s" and "removes_root r"
  shows "sfs_oper e r s = None"
proof -
  have "remove_inode e s ''/'' = None"
    using assms(1) by (intro remove_root_undefined) (simp_all add: rooted_inv_def mounted_inv_def)
  then show ?thesis
    using assms(2) by (cases r) (simp_all add: removes_root_def sfs_unlink_def sfs_rmdir_def code_reply_def)
qed

text \<open>
  Creations with a name that does not fit. \<open>sfs_mkdir\<close> reaches \<open>create_inode\<close> for two modes only.
\<close>

definition overruns_name :: "env \<Rightarrow> request \<Rightarrow> fs \<Rightarrow> bool" where
  "overruns_name e r s \<longleftrightarrow> (case r of
     Create p m \<Rightarrow> name_overrun e s p
   | Mkdir p m \<Rightarrow> (m = 493 \<or> m = - 32348) \<and> name_overrun e s p
   | _ \<Rightarrow> False)"

lemma overruns_name_unfit: "overruns_name e r s \<Longrightarrow> creates r \<and> \<not> path_fits e (request_path r)"
  using name_overrun_unfit by (cases r) (auto simp: overruns_name_def)

lemma sfs_oper_unfit:
  assumes "fs_inv s" and "creates r" and "cstring (request_path r)" and "\<not> path_fits e (request_path r)"
  shows "if overruns_name e r s then sfs_oper e r s = None else \<exists>a. sfs_oper e r s = Some (a, s)"
proof (cases r)
  case (Create p m)
  with create_inode_unfit [OF assms(1), of p e m] assms(3,4) show ?thesis
    by (simp add: overruns_name_def sfs_create_def code_reply_def)
next
  case (Mkdir p m)
  with create_inode_unfit [OF assms(1), of p e] assms(3,4) show ?thesis
    by (simp add: overruns_name_def sfs_mkdir_def code_reply_def)
qed (use assms(2) in simp_all)

lemma lists_full_undefined:
  assumes "rooted_inv s" and "call_ok (e, r)" and "lists_full e r s"
  shows "sfs_oper e r s = None"
proof (cases r)
  case (Readdir p)
  with readdir_mounted [of s p e] assms show ?thesis
    by (simp add: lists_full_def rooted_inv_def mounted_inv_def call_ok_def)
qed (use assms(3) in \<open>simp_all add: lists_full_def\<close>)

lemma sfs_oper_outcome:
  assumes "mounted_inv s" and "call_ok (e, r)" and "\<not> removes_root r" and "sfs_oper e r s = Some (a, t)"
  shows "outcome e s t"
proof -
  have i: "fs_inv s" and e: "env_ok e" and p: "cstring (request_path r)"
    using assms(1,2) by (simp_all add: mounted_inv_def call_ok_def)
  note c = create_outcome [OF assms(1) e] and rm = remove_outcome [OF assms(1) e]
  have ans: "outcome e s (snd (find_answer e s q))" for q by (auto simp: find_answer_def)
  show ?thesis
  proof (cases r)
    case (Getattr q st)
    with sfs_getattr_run [OF i, of q e st] p assms(4) show ?thesis by auto
  next
    case (Create q m)
    with assms(2,4) c show ?thesis
      by (auto simp: call_ok_def sfs_create_def code_reply_def dest!: option_bind_SomeD)
  next
    case (Unlink q)
    with assms(3,4) p show ?thesis
      by (auto simp: removes_root_def sfs_unlink_def code_reply_def Let_def intro!: outcome_errno intro: rm
          dest!: option_bind_SomeD split: if_splits)
  next
    case (Rmdir q)
    with assms(3,4) p show ?thesis
      by (auto simp: removes_root_def sfs_rmdir_def code_reply_def Let_def intro!: outcome_errno intro: rm
          dest!: option_bind_SomeD split: if_splits)
  next
    case (Mkdir q m)
    with assms(2,4) c show ?thesis
      by (auto simp: call_ok_def sfs_mkdir_def code_reply_def dest!: option_bind_SomeD split: if_splits)
  next
    case (Write q b n off)
    with sfs_write_run [OF i, of q e b n off] p assms(4) show ?thesis by (auto simp: code_reply_def)
  next
    case (Readdir q)
    with readdir_mounted [OF i, of q e] p assms(4) show ?thesis by (auto split: if_splits)
  next
    case (Releasedir q)
    with assms(4) show ?thesis by (auto simp: sfs_releasedir_def code_reply_def)
  qed (use find_callbacks [OF i] p ans assms(4) in \<open>auto simp: code_reply_def case_prod_unfold\<close>)
qed

text \<open>The calls that are not defined, exactly; every other one keeps the invariant.\<close>

lemma sfs_oper_cases:
  assumes "rooted_inv s" and "call_ok (e, r)"
  obtains "sfs_oper e r s = None" and "removes_root r \<or> lists_full e r s"
  | a t where "sfs_oper e r s = Some (a, t)" and "rooted_inv t" and "\<not> (removes_root r \<or> lists_full e r s)"
proof (cases "removes_root r \<or> lists_full e r s")
  case True
  then have "sfs_oper e r s = None"
    using removes_root_undefined [OF assms(1)] lists_full_undefined [OF assms] by auto
  then show ?thesis using True by (rule that(1))
next
  case False
  have m: "mounted_inv s" using assms(1) by (simp add: rooted_inv_def)
  with sfs_oper_mounted [OF m assms(2)] False obtain a t
    where at: "sfs_oper e r s = Some (a, t)" "mounted_inv t" by blast
  have "rooted_inv t"
    using outcome_root [OF sfs_oper_outcome [OF m assms(2) _ at(1)]] False assms(1) at(2) by (simp add: rooted_inv_def)
  then show ?thesis using False by (rule that(2) [OF at(1)])
qed

interpretation sfs_service: service fs_step fs_run rooted_inv call_ok
proof unfold_locales
  show "fs_run s [] as u \<longleftrightarrow> as = [] \<and> u = s" for s as u
    by (auto elim: fs_run_NilE intro: run_Nil)
  show "fs_run s (c # cs) as u \<longleftrightarrow> (\<exists>a bs t. as = a # bs \<and> fs_step s c a t \<and> fs_run t cs bs u)"
    for s c cs as u
    by (auto elim!: fs_run_ConsE intro: run_Cons)
  show "rooted_inv t" if "rooted_inv s" "call_ok c" "fs_step s c a t" for s c a t
  proof -
    obtain e r where c: "c = (e, r)" by (cases c)
    with that(3) have a: "sfs_oper e r s = Some (a, t)" by (simp add: fs_step_iff)
    show ?thesis by (rule sfs_oper_cases [OF that(1), of e r]) (use that(2) c a in auto)
  qed
qed

section \<open>A file system without inodes\<close>

text \<open>The count of inodes is set by mounting and by nothing else; without inodes nothing is created. This
  needs nothing well-formed.\<close>

lemma store_sBlock: "store s p f = Some t \<Longrightarrow> sBlock t = sBlock s"
  by (auto simp: store_Some_iff)

lemma indexed_remove_sBlock: "indexed_remove_from_direntry s q i = Some (b, t) \<Longrightarrow> sBlock t = sBlock s"
  by (auto simp: indexed_remove_from_direntry_def Let_def dest!: option_bind_SomeD store_sBlock split: if_splits)

lemma remove_loop_sBlock: "remove_loop s q f i n = Some (b, t) \<Longrightarrow> sBlock t = sBlock s"
proof (induction n arbitrary: i)
  case (Suc n)
  then show ?case using indexed_remove_sBlock [of s q "int i"] by (auto dest!: option_bind_SomeD split: if_splits)
qed simp

lemma remove_from_direntry_sBlock: "remove_from_direntry s q f = Some (b, t) \<Longrightarrow> sBlock t = sBlock s"
  by (auto simp: remove_from_direntry_def split: if_splits dest: remove_loop_sBlock)

lemma flush_loop_sBlock: "flush_loop e s i n pos = Some t \<Longrightarrow> sBlock t = sBlock s"
  by (induction e s i n pos rule: flush_loop.induct) (auto dest!: option_bind_SomeD)

lemma flush_sBlock: "flushAllInodesTodisk e False s = Some (b, t) \<Longrightarrow> sBlock t = sBlock s"
  by (auto simp: flushAllInodesTodisk_def dest!: option_bind_SomeD flush_loop_sBlock)

lemma remove_inode_count: "remove_inode e s p = Some (b, t) \<Longrightarrow> numInodes (sBlock t) = numInodes (sBlock s)"
  by (auto simp: remove_inode_def dest!: option_bind_SomeD flush_sBlock remove_from_direntry_sBlock split: if_splits)

lemma no_inodes_call:
  assumes "numInodes (sBlock s) = 0" and "sfs_oper e r s = Some (a, t)"
  shows "numInodes (sBlock t) = 0 \<and> (creates r \<longrightarrow> t = s)"
  using assms no_inodes_no_create [OF assms(1)] remove_inode_count [of e s]
  by (cases r) (auto simp: callback_defs code_reply_def Let_def dest!: option_bind_SomeD split: if_splits option.splits)

lemma no_inodes_run:
  "fs_run s cs as u \<Longrightarrow> numInodes (sBlock s) = 0 \<Longrightarrow>
   numInodes (sBlock u) = 0 \<and> (list_all (\<lambda>(e, r). creates r) cs \<longrightarrow> u = s)"
proof (induction rule: fs_run.induct)
  case (run_Cons s c a t cs as u)
  then show ?case using no_inodes_call [of s "fst c" "snd c" a t] by (cases c) (auto simp: fs_step_iff)
qed simp

section \<open>A fresh file system\<close>

lemma formatted_root_parent: "fresh s \<Longrightarrow> parent_inumber (inodes (formatted e s) ! 0) = - 1"
  by (auto simp: formatted_def Let_def formatted_inodes_def fresh_def root_fcb_def initDirContents_def)

end
