(* ===== verification/Namespace.thy ===== *)
theory Namespace
  imports Inode_Ops
begin

text \<open>
  The abstract view of the inodes: a finite map from a name and the name of the directory
  it is in to the number of an inode. Finding a path is a lookup in the map, creating a
  path adds to it, and removing one does not take anything out of it, because
  \<open>remove_inode\<close> leaves the names where they are.
\<close>

definition namespace :: "fs \<Rightarrow> string \<times> string \<Rightarrow> nat option" where
  "namespace s = (\<lambda>(n, q). find (\<lambda>i. name_of (inodes s ! i) = n \<and> parent_name_of (inodes s ! i) = q)
     [0..<nat (n_inodes s)])"

lemma namespace_Some_iff:
  "namespace s (n, q) = Some i \<longleftrightarrow> i < nat (n_inodes s) \<and>
     name_of (inodes s ! i) = n \<and> parent_name_of (inodes s ! i) = q \<and>
     (\<forall>j<i. \<not> (name_of (inodes s ! j) = n \<and> parent_name_of (inodes s ! j) = q))"
  by (simp add: namespace_def find_upt_Some_iff)

lemma namespace_None_iff:
  "namespace s (n, q) = None \<longleftrightarrow>
     (\<forall>j<nat (n_inodes s). \<not> (name_of (inodes s ! j) = n \<and> parent_name_of (inodes s ! j) = q))"
  by (simp add: namespace_def find_upt_None_iff)

lemma namespace_cong:
  assumes "n_inodes s = n_inodes t"
    and "\<And>i. i < nat (n_inodes t) \<Longrightarrow> name_of (inodes s ! i) = name_of (inodes t ! i)"
    and "\<And>i. i < nat (n_inodes t) \<Longrightarrow> parent_name_of (inodes s ! i) = parent_name_of (inodes t ! i)"
  shows "namespace s = namespace t"
  unfolding namespace_def using assms by (auto simp: fun_eq_iff intro!: find_cong)

lemma namespace_flushed [simp]: "namespace (flushed e s) = namespace s"
  by (simp add: namespace_def)

text \<open>Finding is looking up.\<close>

lemma findFileOrDir_namespace:
  assumes "fs_inv s" and "cstring p" and "p \<noteq> ''/''" and "getRelativeParentName e (Some p) = Some q"
  shows "findFileOrDir e s p =
    Some (case namespace s (relativeName p, q) of None \<Rightarrow> Null | Some i \<Rightarrow> Inode i)"
  using assms(4) by (simp add: findFileOrDir_find [OF assms(1-3)] namespace_def entry_matches_def)

text \<open>Removal leaves the map alone.\<close>

lemma namespace_removed: "namespace (removed_at s k c) = namespace s"
proof (rule namespace_cong)
  show "n_inodes (removed_at s k c) = n_inodes s"
    by (simp add: removed_at_def Let_def split: option.split)
qed (simp_all add: name_of_def parent_name_of_def removed_names)

section \<open>All carriers of a pair\<close>

text \<open>
  Several inodes may carry the same two names, because nothing keeps a path from being created twice and
  removal leaves the names. The whole table gives for a pair the numbers of all of them; a lookup takes the
  least.
\<close>

definition carriers :: "fs \<Rightarrow> string \<times> string \<Rightarrow> nat set" where
  "carriers s = (\<lambda>(n, q). set (filter (\<lambda>i. name_of (inodes s ! i) = n \<and> parent_name_of (inodes s ! i) = q)
     [0..<nat (n_inodes s)]))"

lemma carriers_iff:
  "i \<in> carriers s x \<longleftrightarrow> i < nat (n_inodes s) \<and> name_of (inodes s ! i) = fst x \<and> parent_name_of (inodes s ! i) = snd x"
  by (auto simp: carriers_def split: prod.split)

lemma carriers_flushed [simp]: "carriers (flushed e s) = carriers s"
  by (simp add: carriers_def)

lemma namespace_least: "namespace s x = (if carriers s x = {} then None else Some (Min (carriers s x)))"
proof (cases "namespace s x")
  case None
  then show ?thesis using namespace_None_iff [of s "fst x" "snd x"] by (auto simp: carriers_iff)
next
  case (Some i)
  then have i: "i \<in> carriers s x" and "\<And>j. j \<in> carriers s x \<Longrightarrow> i \<le> j"
    using namespace_Some_iff [of s "fst x" "snd x" i] by (auto simp: carriers_iff not_less [symmetric])
  moreover have "finite (carriers s x)" by (simp add: carriers_def split: prod.split)
  ultimately have "Min (carriers s x) = i" by (intro Min_eqI)
  then show ?thesis using Some i by auto
qed

lemma findFileOrDir_carriers:
  assumes "fs_inv s" and "cstring p" and "p \<noteq> ''/''" and "getRelativeParentName e (Some p) = Some q"
  shows "findFileOrDir e s p = Some (if carriers s (relativeName p, q) = {} then Null
    else Inode (Min (carriers s (relativeName p, q))))"
  using findFileOrDir_namespace [OF assms] by (simp add: namespace_least)

text \<open>Creation moves one number to the new pair, wherever it was before.\<close>

lemma carriers_created:
  assumes "i < length (inodes s)" and "i < nat (n_inodes s)" and "cstring rel" and "cstring par"
  shows "carriers (created e s rel par mode k i)
    = (\<lambda>x. carriers s x - {i})((rel, par) := insert i (carriers s (rel, par)))"
proof (rule ext, rule set_eqI)
  fix x j
  let ?t = "created e s rel par mode k i"
  have cnt: "n_inodes ?t = n_inodes s" by (simp add: created_def)
  have new: "name_of (inodes ?t ! i) = rel" "parent_name_of (inodes ?t ! i) = par"
    using new_fcb_names [OF assms(3,4)] by (simp_all add: created_new [OF assms(1)])
  show "j \<in> carriers ?t x \<longleftrightarrow> j \<in> ((\<lambda>x. carriers s x - {i})((rel, par) := insert i (carriers s (rel, par)))) x"
  proof (cases "j = i")
    case True
    then show ?thesis using new assms(2) cnt by (cases x) (auto simp: carriers_iff)
  next
    case False
    then show ?thesis using created_other [OF False] cnt by (auto simp: carriers_iff)
  qed
qed

end
