(* ===== verification/Example_State.thy ===== *)
theory Example_State
  imports Sfs_Machine Namespace
begin

text \<open>
  A concrete platform and a concrete file system, on which the properties are applied: a
  process that has just formatted a disk of a million bytes, which gives six inodes. A file
  is created in it, and one directory is full.
\<close>

section \<open>The states\<close>

definition demo_env :: env where
  "demo_env = \<lparr>uid_now = 1000, gid_now = 1000, time_now = 1430000000, open_result = 3,
     io_fail = (\<lambda>off. False), io_takes = (\<lambda>off bs. Some (length bs)), alloc_ok = (\<lambda>n. True), inodes_addr = 0x604000,
     after_sBlock = replicate 544 0, stack_buf = replicate 11744 0\<rparr>"

definition demo_start :: fs where
  "demo_start = (opened demo_env (replicate 20000 0))\<lparr>diskSize := 1000000\<rparr>"

definition demo_fs :: fs where
  "demo_fs = formatted demo_env demo_start"

section \<open>The platform\<close>

lemma demo_env_ok: "env_ok demo_env"
  by (simp add: env_ok_def io_ok_def heap_ok_def addr_ok_def demo_env_def)

lemma demo_heap_ok: "heap_ok demo_env"
  by (simp add: heap_ok_def demo_env_def)

lemma demo_mount_ok: "mount_ok demo_env"
  using demo_env_ok by (simp add: mount_ok_def) (simp add: demo_env_def)

lemma demo_path_fits: "path_fits demo_env ''/a''"
  by (simp add: path_fits_def cstring_def relativeName_def getRelativeParentName_def demo_env_def)

lemma demo_parent_name: "getRelativeParentName demo_env (Some ''/a'') = Some ''/''"
  by (simp add: getRelativeParentName_def demo_env_def)

section \<open>The formatted file system\<close>

lemma demo_start_fresh: "fresh demo_start"
  unfolding demo_start_def opened_def by (simp add: fresh_fs0)

lemma demo_start_dev: "dev_ok demo_env (dev demo_start)"
  using dev_ok_opened [OF demo_mount_ok, of "replicate 20000 0"] by (simp add: demo_start_def)

lemma demo_count: "format_count demo_start = 6"
proof -
  have "stops 988256 6" "\<not> stops 988256 5"
    by (simp_all add: stops_def numeral_eq_Suc)
  then have "inode_count 988256 0 \<le> 6" "\<not> inode_count 988256 0 \<le> 5"
    by (simp_all add: inode_count_le_iff)
  then show ?thesis by (simp add: format_count_def demo_start_def)
qed

lemma demo_format: "formatDisk demo_env demo_start = Some (1, demo_fs)"
  unfolding demo_fs_def
  by (rule format_run [OF demo_start_fresh demo_start_dev])
    (simp_all add: demo_count, simp_all add: demo_start_def format_range_def)

lemma demo_inv: "fs_inv demo_fs"
  unfolding demo_fs_def by (rule formatted_inv [OF demo_start_fresh]) (simp add: demo_count)

lemma demo_dev_ok: "dev_ok demo_env (dev demo_fs)"
  using demo_start_dev by (simp add: demo_fs_def formatted_def Let_def dev_ok_def)

lemma demo_rooted: "rooted_inv demo_fs"
  using demo_inv demo_dev_ok formatted_root_parent [OF demo_start_fresh, of demo_env]
  by (simp add: rooted_inv_def mounted_inv_def dev_ok_def demo_fs_def)

lemma demo_inodes: "inodes demo_fs = (replicate 100 fcb0)[0 := root_fcb demo_env fcb0]"
  by (simp add: demo_fs_def formatted_def Let_def formatted_inodes_def demo_start_def)

lemma demo_n: "n_inodes demo_fs = 6"
  by (simp add: demo_fs_def formatted_def Let_def formatted_sBlock_def demo_count)

lemma demo_bitmap:
  "length (ibmap (sBlock demo_fs)) = 5859" "ibmap (sBlock demo_fs) ! 0 = 1"
  "0 < i \<Longrightarrow> i < 100 \<Longrightarrow> ibmap (sBlock demo_fs) ! i = 0"
  by (simp_all add: demo_fs_def formatted_def Let_def formatted_sBlock_def demo_count
      clear_range_def demo_start_def superblock0_def)

lemma demo_holds_last: "holds_last demo_fs"
proof -
  have "length (disk (dev demo_start)) \<le> length (disk (dev demo_fs))"
    unfolding demo_fs_def formatted_def Let_def by (simp add: disk_store.extent_write_all)
  moreover have "length (disk (dev demo_start)) = 20000" by (simp add: demo_start_def)
  ultimately show ?thesis by (simp add: holds_last_def demo_n slot_offset_def)
qed

lemma demo_create_index: "create_index (sBlock demo_fs) = Some 1"
  using demo_bitmap(3) [of 1] by (simp add: create_index_def demo_n upt_conv_Cons)

lemma demo_root_dir: "dirContents (inodes demo_fs ! 0) = replicate 30 Null"
  by (simp add: demo_inodes root_fcb_def initDirContents_def)

lemma demo_no_a: "findFileOrDir demo_env demo_fs ''/a'' = Some Null"
proof -
  have z: "name_of fcb0 = []" by (simp add: name_of_def fcb0_def numeral_eq_Suc)
  have r: "relativeName ''/a'' = ''a''" by (simp add: relativeName_def)
  have "\<not> entry_matches demo_env ''/a'' (inodes demo_fs ! i)" if "i < 6" for i
  proof (cases i)
    case 0
    then show ?thesis using entry_matches_not_root [OF demo_inv] by simp
  next
    case (Suc j)
    then have "inodes demo_fs ! i = fcb0" using that by (simp add: demo_inodes)
    then show ?thesis by (simp add: entry_matches_def z r)
  qed
  then have "find (\<lambda>i. entry_matches demo_env ''/a'' (inodes demo_fs ! i)) [0..<6] = None"
    by (auto simp: find_None_iff)
  then show ?thesis
    using findFileOrDir_find [OF demo_inv, of "''/a''" demo_env] demo_n
    by (simp add: cstring_def)
qed

section \<open>A file in it\<close>

definition demo_file_fs :: fs where
  "demo_file_fs = flushed demo_env (created demo_env demo_fs ''a'' ''/'' 33188 0 1)"

lemma demo_create: "create_inode demo_env demo_fs ''/a'' 33188 = Some (Inode 1, demo_file_fs)"
proof -
  have p: "create_parent demo_env demo_fs ''/a'' ''/'' = Some (Inode 0)"
    using findRoot_inv [OF demo_inv] by (simp add: create_parent_def)
  have "relativeName ''/a'' = ''a''" by (simp add: relativeName_def)
  with create_at_run [OF demo_inv demo_env_ok demo_dev_ok demo_path_fits _ _ demo_parent_name p, of 1 33188]
  show ?thesis
    by (simp add: create_inode_at [OF demo_inv] demo_create_index demo_file_fs_def)
qed

lemma demo_file_inv: "fs_inv demo_file_fs"
  unfolding demo_file_fs_def fs_inv_flushed
  by (rule created_inv [OF demo_inv]) (simp_all add: cstring_def)

lemma demo_file_dev_ok: "dev_ok demo_env (dev demo_file_fs)"
  using demo_dev_ok by (simp add: demo_file_fs_def created_def)

lemma demo_file_n: "n_inodes demo_file_fs = 6"
  using demo_n by (simp add: demo_file_fs_def created_def)

lemma demo_file_found: "findFileOrDir demo_env demo_file_fs ''/a'' = Some (Inode 1)"
  unfolding demo_file_fs_def findFileOrDir_flushed
  using created_found [OF demo_inv, of demo_env "''a''" "''/''" 33188 0 1 "''/a''"] demo_file_inv
  by (simp add: demo_file_fs_def demo_n cstring_def demo_parent_name demo_no_a relativeName_def)

lemma demo_file_root: "dirContents (inodes demo_file_fs ! 0) = Inode 1 # replicate 29 Null"
proof -
  have "put_entry 1 (replicate 30 Null) = Inode 1 # replicate 29 Null"
    by (simp add: put_entry_def numeral_eq_Suc)
  then show ?thesis
    by (simp add: demo_file_fs_def created_def link_inodes_def demo_inodes root_fcb_def initDirContents_def)
qed

lemma demo_file_new:
  "inodes demo_file_fs ! 1 = new_fcb demo_env fcb0 ''a'' ''/'' 33188 0 1"
  by (simp add: demo_file_fs_def created_def link_inodes_def demo_inodes parent_number_def
      root_fcb_def initDirContents_def)

lemma demo_file_holds_last: "holds_last demo_file_fs"
proof -
  have "length (disk (dev demo_fs)) \<le> length (disk (dev demo_file_fs))"
    using length_flushed [of "created demo_env demo_fs ''a'' ''/'' 33188 0 1" demo_env]
    by (simp add: demo_file_fs_def created_def)
  then show ?thesis using demo_holds_last demo_n demo_file_n by (simp add: holds_last_def)
qed

text \<open>The slot of the last inode still holds the zeros of the disk file.\<close>

lemma demo_last_slot:
  "file_read 840 (slot_offset 5) (disk (dev demo_fs)) = replicate 840 0"
proof -
  let ?ws = "(0, superblock_bytes (formatted_sBlock (sBlock demo_start) 6)) #
    inode_writes demo_env (formatted_inodes demo_env demo_start) 0 5"
  note fcbs = formatted_inodes_ok [OF demo_start_fresh, of demo_env]
  have "superblock_typed (formatted_sBlock (sBlock demo_start) 6)"
    using formatted_sBlock_geometry [OF demo_start_fresh, of 6] by (simp add: geometry_ok_def)
  then have sb: "length (superblock_bytes (formatted_sBlock (sBlock demo_start) 6)) = 11744"
    by (rule length_superblock_bytes)
  have inode: "slot_offset i + length (fcb_bytes (inodes_addr demo_env) (formatted_inodes demo_env demo_start ! i))
      \<le> slot_offset 5" if "i < 5" for i
  proof -
    have "fcb_ok (formatted_inodes demo_env demo_start ! i)"
      using fcbs(1,2) that by (simp add: list_all_length)
    then show ?thesis using slot_offset_mono [OF that] by (simp add: length_fcb_bytes fcb_ok_typed)
  qed
  have "\<forall>w \<in> set ?ws. slot_offset 5 + 840 \<le> fst w \<or> fst w + length (snd w) \<le> slot_offset 5"
    using sb inode slot_offset_start [of 5] by (auto simp: inode_writes_def)
  moreover have "slot_offset 5 + 840 \<le> length (disk (dev demo_start))"
    by (simp add: demo_start_def slot_offset_def)
  ultimately have "file_read 840 (slot_offset 5) (write_all file_write ?ws (disk (dev demo_start)))
      = file_read 840 (slot_offset 5) (disk (dev demo_start))"
    by (rule disk_store.rd_write_all_other)
  moreover have "disk (dev demo_fs) = write_all file_write ?ws (disk (dev demo_start))"
    by (simp add: demo_fs_def formatted_def Let_def demo_count)
  ultimately show ?thesis by (simp add: demo_start_def file_read_def slot_offset_def)
qed

lemma demo_file_last_slot:
  "file_read 840 (slot_offset 5) (disk (dev demo_file_fs)) = replicate 840 0"
proof -
  let ?c = "created demo_env demo_fs ''a'' ''/'' 33188 0 1"
  have i: "fs_inv ?c" using demo_file_inv by (simp add: demo_file_fs_def)
  have "n_inodes ?c = 6" and d: "dev ?c = dev demo_fs" using demo_n by (simp_all add: created_def)
  then have n: "n_inodes ?c - 1 \<le> int 5" by simp
  have "slot_offset 5 + 840 \<le> length (disk (dev ?c))"
    using demo_holds_last d by (simp add: holds_last_def demo_n)
  from flushed_beyond [OF i demo_env_ok n this order_refl] d demo_last_slot show ?thesis
    by (simp add: demo_file_fs_def)
qed

lemma demo_file_last_ok:
  "fcb_ok (read_inode demo_env (disk (dev demo_file_fs)) 5) \<and>
   number_ok (parent_inumber (read_inode demo_env (disk (dev demo_file_fs)) 5))"
  by (rule read_inode_zeros [OF demo_file_last_slot])

lemma demo_file_bitmap:
  "ibmap (sBlock demo_file_fs) ! 1 = 1" "1 < i \<Longrightarrow> i < 100 \<Longrightarrow> ibmap (sBlock demo_file_fs) ! i = 0"
  using demo_bitmap by (simp_all add: demo_file_fs_def created_def)

text \<open>Nothing else is found in it.\<close>

lemma demo_file_none:
  assumes "cstring p" and "p \<noteq> ''/''" and "relativeName p \<noteq> []"
    and "relativeName p = ''a'' \<Longrightarrow> \<exists>q. getRelativeParentName demo_env (Some p) = Some q \<and> q \<noteq> ''/''"
  shows "findFileOrDir demo_env demo_file_fs p = Some Null"
proof -
  have z: "name_of fcb0 = []" by (simp add: name_of_def fcb0_def numeral_eq_Suc)
  have a: "name_of (inodes demo_file_fs ! 1) = ''a'' \<and> parent_name_of (inodes demo_file_fs ! 1) = ''/''"
    unfolding demo_file_new by (rule new_fcb_names) (simp_all add: cstring_def)
  have "\<not> entry_matches demo_env p (inodes demo_file_fs ! j)" if "j < 6" for j
  proof -
    have "inodes demo_file_fs ! j = fcb0" if "2 \<le> j"
      using that \<open>j < 6\<close> by (simp add: demo_file_fs_def created_def link_inodes_def demo_inodes)
    then consider "j = 0" | "j = 1" | "inodes demo_file_fs ! j = fcb0" by linarith
    then show ?thesis
    proof cases
      case 1
      then show ?thesis using entry_matches_not_root [OF demo_file_inv] by simp
    next
      case 2
      then show ?thesis using a assms(4) by (auto simp: entry_matches_def)
    next
      case 3
      then show ?thesis using assms(3) by (simp add: entry_matches_def z)
    qed
  qed
  then have "find (\<lambda>j. entry_matches demo_env p (inodes demo_file_fs ! j)) [0..<6] = None"
    by (auto simp: find_None_iff)
  then show ?thesis using findFileOrDir_find [OF demo_file_inv assms(1,2), of demo_env] demo_file_n by simp
qed

text \<open>Another path of the root gets the next number.\<close>

lemma demo_file_index: "create_index (sBlock demo_file_fs) = Some 2"
  by (rule create_index_least)
    (auto simp: demo_file_n demo_file_bitmap demo_file_bitmap(1) [simplified] less_Suc_eq numeral_2_eq_2)

lemma demo_create_second:
  assumes "path_fits demo_env p" and "getRelativeParentName demo_env (Some p) = Some ''/''"
  shows "\<exists>t. create_inode demo_env demo_file_fs p 33188 = Some (Inode 2, t)"
proof -
  have r: "create_parent demo_env demo_file_fs p ''/'' = Some (Inode 0)"
    using findRoot_inv [OF demo_file_inv] by (simp add: create_parent_def)
  show ?thesis
    using create_at_run [OF demo_file_inv demo_env_ok demo_file_dev_ok assms(1) _ _ assms(2) r, of 2 33188]
    by (simp add: create_inode_at [OF demo_file_inv] demo_file_index)
qed

section \<open>A full directory\<close>

definition demo_full_fs :: fs where
  "demo_full_fs = demo_file_fs\<lparr>inodes := (inodes demo_file_fs)[0 :=
     (inodes demo_file_fs ! 0)\<lparr>dirContents := replicate 30 (Inode 1)\<rparr>]\<rparr>"

lemma demo_full_inv: "fs_inv demo_full_fs"
proof -
  have "fcb_ok ((inodes demo_file_fs ! 0)\<lparr>dirContents := replicate 30 (Inode 1)\<rparr>)"
    using fs_inv_fcb [OF demo_file_inv, of 0]
    by (simp add: fcb_ok_def fcb_sized_def names_ok_def dir_ok_def dir_packed_def ptr_ok_def list_all_iff)
  then show ?thesis
    unfolding demo_full_fs_def by (intro fs_inv_update [OF demo_file_inv]) simp_all
qed

lemma demo_full_dir: "dirContents (inodes demo_full_fs ! 0) = replicate 30 (Inode 1)"
  using fs_inv_length [OF demo_file_inv] by (simp add: demo_full_fs_def)

end
