(* ===== verification/Storage_Properties.thy ===== *)
theory Storage_Properties
  imports Example_State
begin

text \<open>
  What the lower half of the program guarantees: the transfers of \<open>block.c\<close>, and what flushing and
  formatting leave in the disk file. Each property is followed by its application to a concrete case.
\<close>

section \<open>Transfers\<close>

definition demo_dev :: "byte list \<Rightarrow> device" where
  "demo_dev f = \<lparr>diskfile = 3, fd_open = True, disk = f\<rparr>"

lemma demo_dev_good: "dev_ok demo_env (demo_dev f)"
  by (simp add: dev_ok_def io_ok_def demo_env_def demo_dev_def)

text \<open>The padded write of a part of a block is a plain write: afterwards the range holds the data,
  without a trace of the padding, and every other range of the disk file is as it was.\<close>

lemma padded_write_writes:
  assumes "dev_ok e d" and "block_offset n off = Some (int p)" and "length bs \<le> 4096"
  shows "\<exists>d'. block_write_padded e d n (bs @ rest) (int (length bs)) off = Some (int (length bs), d') \<and>
    file_read (length bs) p (disk d') = bs \<and>
    (\<forall>q k. q + k \<le> length (disk d) \<and> (q + k \<le> p \<or> p + length bs \<le> q) \<longrightarrow>
      file_read k q (disk d') = file_read k q (disk d))"
  using block_write_padded_run [OF assms] disk_store.rd_wr_same disk_store.rd_wr_other by simp

text \<open>A padded write whose offset is negative, that meets a closed descriptor or a device error on
  the padding reports \<open>-1\<close> and leaves the disk file alone.\<close>

lemma padded_write_failure:
  assumes "block_offset n off = Some p" and "live_fd d < 0 \<or> p < 0 \<or> io_takes e p (pad_bytes (nat sz)) = None"
    and "0 \<le> sz" and "sz \<le> 4096" and "sz \<le> int (length buf)"
  shows "block_write_padded e d n buf sz off = Some (- 1, d)"
  using assms by (rule block_write_padded_failed)

text \<open>Reading a block returns the count of bytes the disk file has there. A block that lies across
  the end of the file is read short and keeps the rest of the buffer, although the comment
  promises a whole block or nothing; only behind the end is the buffer cleared.\<close>

lemma block_read_outcome:
  assumes "dev_ok e d" and "int_ok (int b * 4096)" and "length buf = 4096"
  shows "block_read e d (int b) buf =
    (let bs = file_read 4096 (b * 4096) (disk d) in
     Some (int (length bs), if bs = [] then replicate 4096 0 else bs @ drop (length bs) buf))"
proof -
  have off: "block_offset (int b) 0 = Some (int (b * 4096))"
    using assms(2) by (simp add: block_offset_def)
  have "length (file_read 4096 (b * 4096) (disk d)) \<le> 4096" by (simp add: file_read_def)
  then show ?thesis
    using live_fd_ok [OF assms(1)] assms(3) off pread_ok [of e "live_fd d" _ _ "b * 4096"]
    by (simp add: block_read_def Let_def clear_buf_def blit_def)
qed

text \<open>A whole block that was written is read back whole, into any buffer.\<close>

lemma block_roundtrip:
  assumes "dev_ok e d" and "int_ok (int b * 4096)" and "length bs = 4096" and "length buf = 4096"
  shows "\<exists>d'. block_write e d (int b) bs = Some (4096, d') \<and> block_read e d' (int b) buf = Some (4096, bs)"
proof -
  have off: "block_offset (int b) 0 = Some (int (b * 4096))"
    using assms(2) by (simp add: block_offset_def)
  let ?d = "d\<lparr>disk := file_write (b * 4096) bs (disk d)\<rparr>"
  have w: "block_write e d (int b) bs = Some (4096, ?d)"
    using live_fd_ok [OF assms(1)] assms(3) off pwrite_ok [of e "live_fd d" _ _ "b * 4096"]
    by (simp add: block_write_def Let_def)
  have rd: "file_read 4096 (b * 4096) (disk ?d) = bs"
    using disk_store.rd_wr_same [of bs "b * 4096" "disk d"] assms(3) by simp
  have d: "dev_ok e ?d" using assms(1) by (simp add: dev_ok_def)
  have "block_read e ?d (int b) buf = Some (4096, bs)"
    using live_fd_ok [OF d] off rd assms(3,4) pread_ok [of e "live_fd ?d" "disk ?d" _ "b * 4096"]
    by (simp add: block_read_def Let_def blit_def)
  with w show ?thesis by blast
qed

text \<open>Reading an inode behind the end of the disk file clears a whole block of memory, not the 840
  bytes of an inode: the four inodes behind it are lost too, and with less than a block left in
  the array the write runs past its end.\<close>

lemma inode_read_overruns:
  assumes "dev_ok e d" and "block_offset n off = Some (int p)" and "length (disk d) \<le> p"
  shows "inode_read 840 e d n buf off =
    (if length buf < 4096 then None else Some (0, replicate 4096 0 @ drop 4096 buf))"
proof -
  have "file_read 840 p (disk d) = []" using assms(3) by (simp add: file_read_def)
  then show ?thesis
    using live_fd_ok [OF assms(1)] assms(2)
    by (simp add: inode_read_def pread_ok Let_def clear_buf_def blit_def)
qed

text \<open>Closing the disk leaves its number behind, so opening it again does nothing, and every
  transfer afterwards fails.\<close>

lemma closed_stays_closed:
  assumes "0 \<le> diskfile d" and "block_offset n 0 = Some p" and "length buf = 4096"
  shows "disk_open e (disk_close d) = Some (disk_close d) \<and>
    block_read e (disk_close d) n buf = Some (- 1, replicate 4096 0) \<and>
    block_write e (disk_close d) n buf = Some (- 1, disk_close d)"
  using assms
  by (simp add: disk_open_def disk_close_def block_read_def block_write_def pread_def pwrite_def
      live_fd_def Let_def clear_buf_def blit_def)

section \<open>Flushing\<close>

text \<open>C33: A flush succeeds, changes nothing in memory, and puts the superblock at the start of the disk
  file and every inode but the last at its slot, four to a block from block three on.\<close>

theorem flush_layout:
  assumes "fs_inv s" and "env_ok e" and "dev_ok e (dev s)"
  shows "\<exists>f. flushAllInodesTodisk e False s = Some (True, s\<lparr>dev := (dev s)\<lparr>disk := f\<rparr>\<rparr>) \<and>
    take 11744 f = superblock_bytes (sBlock s) \<and>
    (\<forall>i. int i < n_inodes s - 1 \<longrightarrow>
      file_read 840 ((3 + i div 4) * 4096 + (i mod 4) * 840) f = fcb_bytes (inodes_addr e) (inodes s ! i))"
proof (intro exI conjI allI impI)
  let ?f = "disk (dev (flushed e s))"
  show "flushAllInodesTodisk e False s = Some (True, s\<lparr>dev := (dev s)\<lparr>disk := ?f\<rparr>\<rparr>)"
    using flush_run [OF assms] by (simp add: flushed_def)
  show "take 11744 ?f = superblock_bytes (sBlock s)"
    using flushed_superblock [OF assms(1,2)] by (simp add: file_read_def)
  show "file_read 840 ((3 + i div 4) * 4096 + (i mod 4) * 840) ?f = fcb_bytes (inodes_addr e) (inodes s ! i)"
    if "int i < n_inodes s - 1" for i
    using flushed_inode [OF assms(1,2) that] by (simp add: slot_offset_def)
qed

theorem flush_layout_witness:
  "\<exists>f. flushAllInodesTodisk demo_env False demo_fs = Some (True, demo_fs\<lparr>dev := (dev demo_fs)\<lparr>disk := f\<rparr>\<rparr>) \<and>
    file_read 840 16384 f = fcb_bytes 0x604000 (inodes demo_fs ! 4)"
proof -
  obtain f where f: "flushAllInodesTodisk demo_env False demo_fs = Some (True, demo_fs\<lparr>dev := (dev demo_fs)\<lparr>disk := f\<rparr>\<rparr>)"
    and i: "\<forall>i. int i < n_inodes demo_fs - 1 \<longrightarrow> file_read 840 ((3 + i div 4) * 4096 + (i mod 4) * 840) f
      = fcb_bytes (inodes_addr demo_env) (inodes demo_fs ! i)"
    using flush_layout [OF demo_inv demo_env_ok demo_dev_ok] by blast
  have "inodes_addr demo_env = 0x604000" by (simp add: demo_env_def)
  with f i [rule_format, of 4] demo_n show ?thesis by auto
qed

text \<open>The flush leaves out the last inode: from its slot on, the disk file is not touched.\<close>

lemma flush_omits_last:
  assumes "fs_inv s" and "env_ok e" and "dev_ok e (dev s)" and "n_inodes s = int n" and "0 < n"
    and "flushAllInodesTodisk e False s = Some (r, t)"
    and "(3 + (n - 1) div 4) * 4096 + ((n - 1) mod 4) * 840 \<le> k" and "k + m \<le> length (disk (dev s))"
  shows "file_read m k (disk (dev t)) = file_read m k (disk (dev s))"
proof -
  have "t = flushed e s" using flush_run [OF assms(1-3)] assms(6) by simp
  moreover have "n_inodes s - 1 \<le> int (n - 1)" using assms(4,5) by simp
  ultimately show ?thesis
    using flushed_beyond [OF assms(1,2) _ assms(8), of "n - 1"] assms(7) by (simp add: slot_offset_def)
qed

text \<open>The flush writes three whole blocks from \<open>sBlockData\<close>: behind the superblock, the disk file
  receives 544 bytes of whatever memory follows it.\<close>

lemma flush_leaks_memory:
  assumes "fs_inv s" and "env_ok e" and "dev_ok e (dev s)" and "flushAllInodesTodisk e False s = Some (r, t)"
  shows "file_read 544 11744 (disk (dev t)) = take 544 (after_sBlock e)"
proof -
  have t: "t = flushed e s" using flush_run [OF assms(1-3)] assms(4) by simp
  have sb: "superblock_typed (sBlock s)" using assms(1) by (simp add: fs_inv_def geometry_ok_def)
  let ?img = "superblock_image e (sBlock s)"
  have l: "length ?img = 12288"
    using assms(2) by (intro length_superblock_image sb) (simp add: env_ok_def)
  then have "?img \<noteq> []" by auto
  then have "file_read (length ?img) 0 (write_all file_write (flush_writes e s) (disk (dev s))) = ?img"
    by (intro disk_store.rd_write_all_same flush_writes_apart assms) (auto simp: flush_writes_def)
  then have "take 12288 (disk (dev t)) = ?img" by (simp only: l t flushed_def) (simp add: file_read_def)
  then have "drop 11744 (take 12288 (disk (dev t))) = drop 11744 ?img" by simp
  then have "take 544 (drop 11744 (disk (dev t))) = drop 11744 ?img" by (simp add: drop_take)
  then show ?thesis
    by (simp add: file_read_def superblock_image_def length_superblock_bytes [OF sb] drop_take)
qed

section \<open>Formatting\<close>

text \<open>C34: The loop that counts the inodes of a new disk returns, and its count is the least \<open>k\<close> for
  which the space is used up: either \<open>k\<close> plus one allocations reach it, or the sum of the first
  \<open>k\<close> does, because the code adds the running total and not the size of one allocation.\<close>

theorem format_loop_count:
  assumes "R \<le> 2 ^ 31 - 2 ^ 24"
  shows "\<exists>k. format_loop R 0 0 sb = Some (sb\<lparr>numInodes := numInodes sb + of_nat k,
      numDataBlocks := numDataBlocks sb + 15 * of_nat k\<rparr>) \<and>
    (R \<le> 61444 * (int k + 1) \<or> 2 * R \<le> 61444 * (int k * (int k + 1))) \<and>
    (\<forall>j<k. 61444 * (int j + 1) < R \<and> 61444 * (int j * (int j + 1)) < 2 * R)"
proof -
  let ?k = "inode_count R 0"
  have R: "format_range R" using assms by (simp add: format_range_def)
  have st: "stops R j \<longleftrightarrow> R \<le> 61444 * (int j + 1) \<or> 2 * R \<le> 61444 * (int j * (int j + 1))" for j
    using used_after_closed [of j] by (auto simp: stops_def algebra_simps)
  have "stops R ?k" and "\<forall>j<?k. \<not> stops R j" using inode_count_spec [of R 0] by auto
  then show ?thesis
    using format_loop_run [OF R, of 0 sb] by (intro exI [of _ ?k]) (auto simp: st not_le)
qed

theorem format_loop_count_witness:
  "\<exists>k. format_loop 988256 0 0 superblock0 = Some (superblock0\<lparr>numInodes := numInodes superblock0 + of_nat k,
      numDataBlocks := numDataBlocks superblock0 + 15 * of_nat k\<rparr>) \<and> k < 7"
proof -
  obtain k where k: "format_loop 988256 0 0 superblock0 = Some (superblock0\<lparr>numInodes := numInodes superblock0 + of_nat k,
      numDataBlocks := numDataBlocks superblock0 + 15 * of_nat k\<rparr>)"
    and l: "\<forall>j<k. 61444 * (int j + 1) < 988256 \<and> 61444 * (int j * (int j + 1)) < 2 * (988256 :: int)"
    using format_loop_count [of 988256 superblock0] by auto
  from l [rule_format, of 6] have "\<not> 6 < k" by auto
  with k show ?thesis by (intro exI [of _ k]) simp
qed

text \<open>C35: Formatting a disk that gives at most a hundred inodes succeeds and establishes the invariant:
  the root is inode 0, is named \<open>/\<close>, has no entries, has the number \<open>0\<close> and the parent number
  \<open>-1\<close>; the bitmap holds it as used and the others as free.\<close>

theorem format_establishes_invariant:
  assumes "fresh s" and "dev_ok e (dev s)" and "0 \<le> diskSize s"
    and "diskSize s - 11744 \<le> 2 ^ 31 - 2 ^ 24" and "format_count s \<le> 100"
  shows "\<exists>t. formatDisk e s = Some (1, t) \<and> fs_inv t \<and> n_inodes t = int (format_count s) \<and>
    findRootOrDieTrying t = Some (Inode 0) \<and> name_of (inodes t ! 0) = ''/'' \<and>
    dirContents (inodes t ! 0) = replicate 30 Null \<and> inumber (inodes t ! 0) = 0 \<and>
    parent_inumber (inodes t ! 0) = - 1 \<and> ibmap (sBlock t) ! 0 = 1"
proof -
  have "format_range (diskSize s - 11744)" using assms(4) by (simp add: format_range_def)
  note run = format_run [OF assms(1-3) this assms(5)]
  note inv = formatted_inv [OF assms(1,5), of e]
  let ?t = "formatted e s"
  have l: "length (inodes s) = 100" using assms(1) by (simp add: fresh_def)
  then have r: "inodes ?t ! 0 = root_fcb e (inodes s ! 0)"
    by (simp add: formatted_def Let_def formatted_inodes_def)
  have "n_inodes ?t = int (format_count s)"
    using assms(5) by (simp add: formatted_def Let_def formatted_sBlock_def sint_of_nat_small)
  moreover have "name_of (inodes ?t ! 0) = ''/''" using inv by (simp add: name_of_def fs_inv_def)
  moreover have "ibmap (sBlock ?t) ! 0 = 1"
    using assms(1) by (simp add: formatted_def Let_def formatted_sBlock_def clear_range_def fresh_def superblock_typed_def)
  ultimately show ?thesis
    using run inv findRoot_inv [OF inv] formatted_root_parent [OF assms(1), of e] r
    by (intro exI [of _ ?t]) (simp add: root_fcb_def initDirContents_def)
qed

theorem format_establishes_invariant_witness:
  "\<exists>t. formatDisk demo_env demo_start = Some (1, t) \<and> fs_inv t \<and> n_inodes t = 6"
  using format_establishes_invariant [OF demo_start_fresh demo_start_dev]
  by (simp add: demo_count) (auto simp: demo_start_def)

end
