(* ===== verification/Heap_Use.thy ===== *)
theory Heap_Use
  imports Inode_Ops
begin

text \<open>
  The heap: which blocks the functions of \<open>src/src/DateiSteuerBlock.c\<close> ask for and never give
  back. Each function that allocates is written once more, with the number of bytes that no
  pointer reaches any longer when it returns; without that number it is shown to be the
  function of \<open>Path_Names\<close>, \<open>Lookup\<close> and \<open>Inode_Ops\<close>. Only \<open>findFileOrDir\<close> calls \<open>free\<close>, on the
  name \<open>getRelativeParentName\<close> returns.
\<close>

section \<open>getRelativeParentName\<close>

text \<open>The name with the size of its block, and the bytes lost: \<open>absoluteParentName\<close> is not freed.\<close>

definition getRelativeParentName_heap :: "env \<Rightarrow> string option \<Rightarrow> (string \<times> nat) option \<times> nat" where
  "getRelativeParentName_heap e filePath =
     (case filePath of
        None \<Rightarrow> (None, 0)
      | Some path \<Rightarrow>
          (case strrchr path slash of
             None \<Rightarrow> (None, 0)
           | Some k \<Rightarrow>
               if \<not> alloc_ok e (length path) then (None, 0)
               else
                 let lost = length path; lenAbsParent = length path - length (drop k path) in
                 if lenAbsParent = 0
                 then (if alloc_ok e 2 then (Some (''/'', 2), lost) else (None, lost))
                 else
                   let absoluteParentName = take lenAbsParent path in
                   (case strrchr absoluteParentName slash of
                      Some j \<Rightarrow>
                        let fromLastSlashInAP = drop j absoluteParentName; sz = length fromLastSlashInAP + 1 in
                        if alloc_ok e sz
                        then (Some (drop 1 fromLastSlashInAP, sz), lost) else (None, lost)
                    | None \<Rightarrow> if alloc_ok e 2 then (Some (''/'', 2), lost) else (None, lost))))"

lemma getRelativeParentName_erase:
  "map_option fst (fst (getRelativeParentName_heap e q)) = getRelativeParentName e q"
  by (simp add: getRelativeParentName_heap_def getRelativeParentName_def Let_def split: option.split)

lemma getRelativeParentName_lost:
  "snd (getRelativeParentName_heap e (Some p)) = (if slash \<in> set p \<and> alloc_ok e (length p) then length p else 0)"
proof (cases "strrchr p slash")
  case None
  then show ?thesis using strrchr_NoneD [OF None] by (simp add: getRelativeParentName_heap_def)
next
  case (Some k)
  then have "slash \<in> set p" using strrchr_None_iff [of p slash] by auto
  with Some show ?thesis by (simp add: getRelativeParentName_heap_def Let_def split: option.split)
qed

section \<open>findFileOrDir\<close>

fun findFileOrDir_loop_heap :: "env \<Rightarrow> fs \<Rightarrow> string \<Rightarrow> string \<Rightarrow> nat \<Rightarrow> nat \<Rightarrow> nat \<Rightarrow> (fcb_ptr \<times> nat) option" where
  "findFileOrDir_loop_heap e s filePath rel x 0 lost = Some (Null, lost)"
| "findFileOrDir_loop_heap e s filePath rel x (Suc n) lost = do {
     currFCB \<leftarrow> arr_get (inodes s) (int x);
     same \<leftarrow> strcmp_eq (fileName currFCB) rel;
     (if same then
        (case getRelativeParentName_heap e (Some filePath) of
           (Some (parentName, sz), leaked) \<Rightarrow> do {
             sameParent \<leftarrow> strcmp_eq (parentDir currFCB) parentName;
             (if sameParent then Some (Inode x, lost + leaked)
              else findFileOrDir_loop_heap e s filePath rel (Suc x) n (lost + leaked)) }
         | (None, leaked) \<Rightarrow> Some (Inode x, lost + leaked))
      else findFileOrDir_loop_heap e s filePath rel (Suc x) n lost) }"

definition findFileOrDir_heap :: "env \<Rightarrow> fs \<Rightarrow> string \<Rightarrow> (fcb_ptr \<times> nat) option" where
  "findFileOrDir_heap e s filePath =
     (if filePath = ''/'' then map_option (\<lambda>r. (r, 0)) (findRootOrDieTrying s)
      else findFileOrDir_loop_heap e s filePath (relativeName filePath) 0 (nat (n_inodes s)) 0)"

lemma find_loop_erase:
  "map_option fst (findFileOrDir_loop_heap e s p rel x n lost) = findFileOrDir_loop e s p rel x n"
proof (induction n arbitrary: x lost)
  case (Suc n)
  have q: "getRelativeParentName e (Some p) = map_option fst (fst (getRelativeParentName_heap e (Some p)))"
    by (rule getRelativeParentName_erase [symmetric])
  obtain res leaked where h: "getRelativeParentName_heap e (Some p) = (res, leaked)" by (cases "getRelativeParentName_heap e (Some p)")
  show ?case
    by (cases res) (auto simp: q h Suc.IH split: Option.bind_split)
qed simp

lemma findFileOrDir_erase: "map_option fst (findFileOrDir_heap e s p) = findFileOrDir e s p"
  by (simp add: findFileOrDir_heap_def findFileOrDir_def find_loop_erase option.map_comp comp_def option.map_ident)

text \<open>
  A search loses the length of the path once for every inode whose name it compares as equal, up to
  the one it returns.
\<close>

definition tried :: "fs \<Rightarrow> string \<Rightarrow> nat \<Rightarrow> nat \<Rightarrow> nat" where
  "tried s p x y = length (filter (\<lambda>j. name_of (inodes s ! j) = relativeName p) [x..<y])"

lemma tried_Cons: "x < y \<Longrightarrow> tried s p x y = (if name_of (inodes s ! x) = relativeName p then 1 else 0) + tried s p (Suc x) y"
  by (simp add: tried_def upt_conv_Cons)

lemma tried_empty: "tried s p x x = 0"
  by (simp add: tried_def)

lemma find_loop_lost:
  assumes "fs_inv s" and "alloc_ok e (length p)" and "cstring p" and "slash \<in> set p" and "x + n \<le> 100"
  shows "\<exists>r y. findFileOrDir_loop_heap e s p (relativeName p) x n lost = Some (r, lost + length p * tried s p x y) \<and>
    y = (case r of Inode k \<Rightarrow> Suc k | _ \<Rightarrow> x + n) \<and> (\<forall>k. r = Inode k \<longrightarrow> x \<le> k \<and> name_of (inodes s ! k) = relativeName p)"
  using assms(5)
proof (induction n arbitrary: x lost)
  case 0
  then show ?case by (simp add: tried_empty)
next
  case (Suc n)
  then have x: "x < 100" and n: "Suc x + n \<le> 100" by simp_all
  note f = fs_inv_fcb [OF assms(1) x]
  have g: "arr_get (inodes s) (int x) = Some (inodes s ! x)" using x fs_inv_length [OF assms(1)] by simp
  note names = strcmp_name [OF f cstring_relativeName [OF assms(3)]]
  have step: ?case if h: "findFileOrDir_loop_heap e s p (relativeName p) x (Suc n) lost
      = findFileOrDir_loop_heap e s p (relativeName p) (Suc x) n lost'"
    and l: "lost' = lost + length p * (if name_of (inodes s ! x) = relativeName p then 1 else 0)" for lost'
  proof -
    from Suc.IH [OF n, of lost'] obtain r y where r:
      "findFileOrDir_loop_heap e s p (relativeName p) (Suc x) n lost' = Some (r, lost' + length p * tried s p (Suc x) y)"
      "y = (case r of Inode k \<Rightarrow> Suc k | _ \<Rightarrow> Suc x + n)"
      "\<forall>k. r = Inode k \<longrightarrow> Suc x \<le> k \<and> name_of (inodes s ! k) = relativeName p" by blast
    have "x < y" using r(2,3) by (auto split: fcb_ptr.splits)
    have "lost' + length p * tried s p (Suc x) y = lost + length p * tried s p x y"
      by (simp add: l tried_Cons [OF \<open>x < y\<close>] distrib_left)
    with r h show ?thesis by (intro exI [of _ r] exI [of _ y]) (auto split: fcb_ptr.split)
  qed
  show ?case
  proof (cases "name_of (inodes s ! x) = relativeName p")
    case False
    then show ?thesis using g names by (intro step) simp_all
  next
    case True
    obtain res leaked where h: "getRelativeParentName_heap e (Some p) = (res, leaked)"
      by (cases "getRelativeParentName_heap e (Some p)")
    have l: "leaked = length p" using getRelativeParentName_lost [of e p] h assms(2,4) by simp
    have one: "tried s p x (Suc x) = 1" using True by (simp add: tried_Cons tried_empty)
    show ?thesis
    proof (cases res)
      case None
      then show ?thesis using g names True h one l by (intro exI [of _ "Inode x"] exI [of _ "Suc x"]) simp
    next
      case (Some q)
      then have "getRelativeParentName e (Some p) = Some (fst q)" using getRelativeParentName_erase [of e "Some p"] h by simp
      note par = strcmp_parent [OF f getRelativeParentName_cstring [OF assms(3) this]]
      show ?thesis
      proof (cases "parent_name_of (inodes s ! x) = fst q")
        case True
        then show ?thesis using g names \<open>name_of (inodes s ! x) = relativeName p\<close> h one l Some par
          by (intro exI [of _ "Inode x"] exI [of _ "Suc x"]) (simp add: case_prod_unfold)
      next
        case False
        then show ?thesis using g names True h l Some par by (intro step) (simp_all add: case_prod_unfold)
      qed
    qed
  qed
qed

lemma find_lost:
  assumes "fs_inv s" and "alloc_ok e (length p)" and "cstring p" and "slash \<in> set p" and "p \<noteq> ''/''"
  obtains r y where "findFileOrDir_heap e s p = Some (r, length p * tried s p 0 y)" and "findFileOrDir e s p = Some r"
    and "y = (case r of Inode k \<Rightarrow> Suc k | _ \<Rightarrow> nat (n_inodes s))" and "r \<noteq> Null \<Longrightarrow> 0 < tried s p 0 y"
proof -
  have "0 + nat (n_inodes s) \<le> 100" using fs_inv_count [OF assms(1)] by simp
  from find_loop_lost [OF assms(1-4) this, of 0, unfolded add_0_left] obtain r y where
    h: "findFileOrDir_heap e s p = Some (r, length p * tried s p 0 y)"
    and y: "y = (case r of Inode k \<Rightarrow> Suc k | _ \<Rightarrow> nat (n_inodes s))"
    and k: "\<forall>k. r = Inode k \<longrightarrow> name_of (inodes s ! k) = relativeName p"
    using assms(5) by (auto simp: findFileOrDir_heap_def)
  have f: "findFileOrDir e s p = Some r" using findFileOrDir_erase [of e s p] h by simp
  moreover have "0 < tried s p 0 y" if ne: "r \<noteq> Null"
  proof -
    obtain j where "r = Inode j"
      using f ne by (cases rule: findFileOrDir_cases [OF assms(1,3), of e]) auto
    with k y show ?thesis by (auto simp: tried_def filter_empty_conv)
  qed
  ultimately show ?thesis using that h y by blast
qed

section \<open>A heap that runs out\<close>

text \<open>
  A heap of \<open>size\<close> bytes of which some are lost already grants what still fits. What a call loses is
  charged when it is over. The state does not change, so that a number of equal lookups can be made.
\<close>

definition on_heap :: "nat \<Rightarrow> nat \<Rightarrow> env \<Rightarrow> env" where
  "on_heap cap lost e = e\<lparr>alloc_ok := (\<lambda>n. lost + n \<le> cap)\<rparr>"

fun lost_after :: "nat \<Rightarrow> env \<Rightarrow> fs \<Rightarrow> string \<Rightarrow> nat \<Rightarrow> nat \<Rightarrow> nat option" where
  "lost_after cap e s p lost 0 = Some lost"
| "lost_after cap e s p lost (Suc n) = do {
     (r, more_lost) \<leftarrow> findFileOrDir_heap (on_heap cap lost e) s p;
     lost_after cap e s p (lost + more_lost) n }"

text \<open>Whatever is found with enough memory is found without, as less is compared.\<close>

lemma getRelativeParentName_enough:
  "heap_ok e \<Longrightarrow> getRelativeParentName e' q = Some r \<Longrightarrow> getRelativeParentName e q = Some r"
  by (auto simp: getRelativeParentName_def heap_ok_def Let_def split: option.splits if_splits)

lemma entry_matches_enough: "heap_ok e \<Longrightarrow> entry_matches e p f \<Longrightarrow> entry_matches e' p f"
  using getRelativeParentName_enough [of e e' "Some p"]
  by (auto simp: entry_matches_def split: option.splits)

lemma found_if_matches:
  assumes "fs_inv s" and "cstring p" and "p \<noteq> ''/''" and "k < nat (n_inodes s)" and "entry_matches e p (inodes s ! k)"
  obtains j where "findFileOrDir e s p = Some (Inode j)"
proof -
  have "find (\<lambda>i. entry_matches e p (inodes s ! i)) [0..<nat (n_inodes s)] \<noteq> None"
    using assms(4,5) by (auto simp: find_None_iff)
  then show ?thesis using that findFileOrDir_find [OF assms(1-3), of e] by auto
qed

lemma refused_matches:
  assumes "slash \<in> set p" and "\<not> alloc_ok e (length p)"
  shows "entry_matches e p f \<longleftrightarrow> name_of f = relativeName p"
proof -
  obtain k where "strrchr p slash = Some k" using assms(1) strrchr_None_iff [of p slash] by (cases "strrchr p slash") auto
  then have "getRelativeParentName e (Some p) = None" using assms(2) by (simp add: getRelativeParentName_def)
  then show ?thesis by (simp add: entry_matches_def)
qed

text \<open>Each lookup of a path that is there loses its length, until there is no room for it.\<close>

lemma lost_after_run:
  assumes "fs_inv s" and "cstring p" and "slash \<in> set p" and "p \<noteq> ''/''"
    and "k < nat (n_inodes s)" and "\<And>e'. entry_matches e' p (inodes s ! k)"
  shows "\<exists>u. lost_after cap e s p lost n = Some u \<and> lost \<le> u \<and> (lost + n * length p \<le> u \<or> cap < u + length p)"
proof (induction n arbitrary: lost)
  case 0
  then show ?case by simp
next
  case (Suc n)
  let ?e = "on_heap cap lost e"
  obtain j where f: "findFileOrDir ?e s p = Some (Inode j)"
    by (rule found_if_matches [OF assms(1,2,4,5) assms(6)])
  show ?case
  proof (cases "lost + length p \<le> cap")
    case True
    then have "alloc_ok ?e (length p)" by (simp add: on_heap_def)
    from find_lost [OF assms(1) this assms(2-4)] f obtain more where
      h: "findFileOrDir_heap ?e s p = Some (Inode j, more)" and m: "length p \<le> more"
      by (metis fcb_ptr.distinct(1) mult.commute mult_le_mono1 nat_mult_1 option.inject Suc_leI One_nat_def)
    from Suc.IH [of "lost + more"] h m show ?thesis by fastforce
  next
    case False
    obtain r more where h: "findFileOrDir_heap ?e s p = Some (r, more)"
      using findFileOrDir_erase [of ?e s p] f by auto
    from Suc.IH [of "lost + more"] h False show ?thesis by fastforce
  qed
qed

section \<open>create\_inode\<close>

text \<open>Here the name of the parent is not freed either, nor is the path up to the last slash.\<close>

definition create_parent_heap :: "env \<Rightarrow> fs \<Rightarrow> string \<Rightarrow> string \<Rightarrow> (fcb_ptr \<times> nat) option" where
  "create_parent_heap e s path parentName =
     (if parentName = ''/'' then map_option (\<lambda>r. (r, 0)) (findRootOrDieTrying s)
      else if alloc_ok e (length path) then do {
        (parent, lost) \<leftarrow> findFileOrDir_heap e s (take (length path - length (relativeName path) - 1) path);
        Some (parent, lost + length path) }
      else Some (Null, 0))"

definition create_at_heap :: "env \<Rightarrow> fs \<Rightarrow> string \<Rightarrow> c_int \<Rightarrow> nat \<Rightarrow> ((fcb_ptr \<times> fs) \<times> nat) option" where
  "create_at_heap e s path mode i =
     (case getRelativeParentName_heap e (Some path) of
        (None, leaked) \<Rightarrow> Some ((Null, s), leaked)
      | (Some (parentName, sz), leaked) \<Rightarrow> do {
          (parent, leaked') \<leftarrow> create_parent_heap e s path parentName;
          let lost = leaked + sz + leaked';
          (if parent = Null then Some ((Null, s), lost)
           else do {
             child \<leftarrow> inode_address s (int i);
             (added, s1) \<leftarrow> add_to_direntry s parent child;
             (if \<not> added then Some ((Null, s1), lost)
              else do {
                s2 \<leftarrow> fill_inode e s1 path parentName mode parent i;
                (ok, s3) \<leftarrow> flushAllInodesTodisk e False s2;
                Some ((child, s3), lost) }) }) })"

lemma create_parent_erase: "map_option fst (create_parent_heap e s p q) = create_parent e s p q"
proof -
  have "findFileOrDir e s r = map_option fst (findFileOrDir_heap e s r)" for r by (rule findFileOrDir_erase [symmetric])
  then show ?thesis
    by (auto simp: create_parent_heap_def create_parent_def option.map_comp comp_def option.map_ident
        split: Option.bind_split)
qed

lemma create_at_erase: "map_option fst (create_at_heap e s p m i) = create_at e s p m i"
proof -
  have q: "getRelativeParentName e (Some p) = map_option fst (fst (getRelativeParentName_heap e (Some p)))"
    by (rule getRelativeParentName_erase [symmetric])
  have par: "create_parent e s p q = map_option fst (create_parent_heap e s p q)" for q
    by (rule create_parent_erase [symmetric])
  obtain res leaked where h: "getRelativeParentName_heap e (Some p) = (res, leaked)"
    by (cases "getRelativeParentName_heap e (Some p)")
  show ?thesis
    by (cases res) (auto simp: create_at_heap_def create_at_def q h par Let_def split: Option.bind_split)
qed

text \<open>A creation that gets as far as a parent loses more than the length of its path.\<close>

lemma create_at_lost:
  assumes "create_at_heap e s p m i = Some ((Inode c, t), lost)"
  shows "length p < lost"
proof -
  obtain q sz leaked where h: "getRelativeParentName_heap e (Some p) = (Some (q, sz), leaked)"
    and l: "leaked + sz \<le> lost"
    using assms by (auto simp: create_at_heap_def Let_def dest!: option_bind_SomeD split: prod.splits option.splits if_splits)
  from h have "leaked = length p \<and> 0 < sz"
    by (auto simp: getRelativeParentName_heap_def Let_def split: option.splits if_splits)
  with l show ?thesis by simp
qed

end
