(* ===== verification/Naming_Properties.thy ===== *)
theory Naming_Properties
  imports Heap_Use Example_State
begin

text \<open>
  What the upper half of \<open>DateiSteuerBlock.c\<close> guarantees: taking paths apart, finding
  inodes, the entries of a directory, creating and removing inodes. Each property is
  followed by its application to a concrete case.
\<close>

section \<open>Paths\<close>

text \<open>On an absolute path without empty components the relative name is the last component and the
  parent name the one before it, or \<open>/\<close> for a path of one component.\<close>

lemma path_components:
  assumes "heap_ok e" and "list_all component (cs @ [c])"
  shows "relativeName (path_of (cs @ [c])) = c \<and>
    getRelativeParentName e (Some (path_of (cs @ [c]))) = Some (if cs = [] then ''/'' else last cs)"
  using getRelativeParentName_path_of [OF assms] assms(2)
  by (simp add: relativeName_path_of component_def dir_name_def)

text \<open>As long as the heap gives what is asked for, a parent name is missing only for a null pointer
  and for a path without a slash.\<close>

lemma parent_name_missing_iff:
  assumes "heap_ok e"
  shows "getRelativeParentName e path = None \<longleftrightarrow> (case path of None \<Rightarrow> True | Some p \<Rightarrow> slash \<notin> set p)"
  using getRelativeParentName_total [OF assms] getRelativeParentName_no_slash getRelativeParentName_NULL
  by (cases path) fastforce+

section \<open>Finding\<close>

text \<open>C24: \<open>findFileOrDir\<close> returns the first inode, of as many as the superblock counts, that carries the
  last component of the path as its name and the component before as its parent's name, and null
  exactly if there is none; whether the inode is in use, or in a directory, is not looked at.\<close>

theorem find_first_match:
  assumes "fs_inv s" and "cstring p" and "p \<noteq> ''/''" and "getRelativeParentName e (Some p) = Some q"
  shows "(findFileOrDir e s p = Some (Inode k) \<longleftrightarrow>
      int k < n_inodes s \<and> name_of (inodes s ! k) = relativeName p \<and> parent_name_of (inodes s ! k) = q \<and>
      (\<forall>j<k. \<not> (name_of (inodes s ! j) = relativeName p \<and> parent_name_of (inodes s ! j) = q))) \<and>
    (findFileOrDir e s p = Some Null \<longleftrightarrow>
      (\<forall>i. int i < n_inodes s \<longrightarrow> \<not> (name_of (inodes s ! i) = relativeName p \<and> parent_name_of (inodes s ! i) = q)))"
proof -
  have m: "entry_matches e p f \<longleftrightarrow> name_of f = relativeName p \<and> parent_name_of f = q" for f
    using assms(4) by (simp add: entry_matches_def)
  have lt: "i < nat (n_inodes s) \<longleftrightarrow> int i < n_inodes s" for i by linarith
  show ?thesis
    unfolding findFileOrDir_find [OF assms(1-3)] option.inject found_case m
    by (simp add: find_upt_Some_iff find_upt_None_iff lt)
qed

theorem find_first_match_witness:
  "findFileOrDir demo_env demo_file_fs ''/a'' = Some (Inode 1) \<and> name_of (inodes demo_file_fs ! 1) = ''a''"
  using find_first_match [OF demo_file_inv _ _ demo_parent_name, of 1] demo_file_found
  by (simp add: cstring_def relativeName_def)

text \<open>Only the last two components of a path matter: two files of the same name in directories of the
  same name are confused, wherever those directories are.\<close>

lemma find_two_components:
  assumes "fs_inv s" and "heap_ok e" and "list_all component (xs @ [d, c])" and "list_all component (ys @ [d, c])"
  shows "findFileOrDir e s (path_of (xs @ [d, c])) = findFileOrDir e s (path_of (ys @ [d, c]))"
proof -
  have rel: "relativeName (path_of (cs @ [d, c])) = c" for cs
    using relativeName_path_of [of c "cs @ [d]"] assms(3) by (simp add: component_def)
  have par: "getRelativeParentName e (Some (path_of (cs @ [d, c]))) = Some d"
    if "list_all component (cs @ [d, c])" for cs
    using getRelativeParentName_path_of [OF assms(2), of "cs @ [d]" c] that by (simp add: dir_name_def)
  have ne: "path_of (cs @ [d, c]) \<noteq> ''/''" for cs
  proof
    assume "path_of (cs @ [d, c]) = ''/''"
    then have "relativeName (path_of (cs @ [d, c])) = []" by (simp add: relativeName_def)
    then show False using rel [of cs] assms(3) by (simp add: component_def)
  qed
  have "entry_matches e (path_of (xs @ [d, c])) f = entry_matches e (path_of (ys @ [d, c])) f" for f
    using par [OF assms(3)] par [OF assms(4)] rel by (simp add: entry_matches_def)
  then show ?thesis
    using findFileOrDir_find [OF assms(1) cstring_path_of [OF assms(3)] ne, of e]
      findFileOrDir_find [OF assms(1) cstring_path_of [OF assms(4)] ne, of e] by simp
qed

text \<open>\<open>getFreeInodeNum\<close> returns the least number whose entry in the bitmap is 0, and \<open>-1\<close> exactly if
  none of the counted entries is.\<close>

lemma least_free_inode:
  assumes "fs_inv s"
  shows "(getFreeInodeNum (sBlock s) = Some (int i) \<longleftrightarrow>
      int i < n_inodes s \<and> ibmap (sBlock s) ! i = 0 \<and> (\<forall>j<i. ibmap (sBlock s) ! j \<noteq> 0)) \<and>
    (getFreeInodeNum (sBlock s) = Some (- 1) \<longleftrightarrow> (\<forall>j. int j < n_inodes s \<longrightarrow> ibmap (sBlock s) ! j \<noteq> 0))"
proof -
  have len: "0 + nat (n_inodes s) \<le> length (ibmap (sBlock s))"
    using fs_inv_count [OF assms] assms by (simp add: fs_inv_def geometry_ok_def superblock_typed_def)
  have lt: "j < nat (n_inodes s) \<longleftrightarrow> int j < n_inodes s" for j by linarith
  have "getFreeInodeNum (sBlock s) = Some (case find (\<lambda>j. ibmap (sBlock s) ! j = 0) [0..<nat (n_inodes s)] of
      None \<Rightarrow> - 1 | Some j \<Rightarrow> int j)"
    using getFreeInodeNum_loop_spec [OF len] by (simp add: getFreeInodeNum_def)
  moreover have "(case r of None \<Rightarrow> - 1 | Some j \<Rightarrow> int j) = int i \<longleftrightarrow> r = Some i"
    and "(case r of None \<Rightarrow> - 1 | Some j \<Rightarrow> int j) = - 1 \<longleftrightarrow> r = None" for r
    by (auto split: option.split)
  ultimately show ?thesis by (simp add: find_upt_Some_iff find_upt_None_iff lt)
qed

text \<open>The parent of an inode other than the root is the inode with its parent number; for the root of
  a formatted disk, whose parent number is \<open>-1\<close>, the address is not one of the array.\<close>

lemma parent_of_inode:
  assumes "fs_inv s" and "k < 100" and "parent_inumber (inodes s ! 0) = - 1"
  shows "getParentFcb s (Inode k) =
    (if k = 0 then None else Some (Inode (nat (sint (parent_inumber (inodes s ! k))))))"
  using getParentFcb_inv [OF assms(1) _ assms(2)] getParentFcb_root_undefined [OF assms(1,3)] by simp

section \<open>The name dump\<close>

text \<open>The dump of the names prints a line for each of the first 64 inodes, and for each that has a
  name it prints the line of a nameless one as well.\<close>

lemma name_dump:
  assumes "fs_inv s"
  shows "showInodeNames s = Some (concat (map (\<lambda>i.
    if fileName (inodes s ! i) ! 0 = NUL then [NullName i]
    else [NameLine i (name_of (inodes s ! i)), NullName i]) [0..<64]))"
proof -
  have "showInodeNames_loop s i n = Some (concat (map (\<lambda>i.
      if fileName (inodes s ! i) ! 0 = NUL then [NullName i]
      else [NameLine i (name_of (inodes s ! i)), NullName i]) [i..<i + n]))" if "i + n \<le> 100" for i n
    using that
  proof (induction n arbitrary: i)
    case 0
    then show ?case by simp
  next
    case (Suc n)
    have "arr_get (inodes s) (int i) = Some (inodes s ! i)"
      using Suc.prems fs_inv_length [OF assms] by simp
    moreover have "cstr (fileName (inodes s ! i)) = Some (name_of (inodes s ! i))"
      using Suc.prems by (intro name_of_cstr fs_inv_fcb [OF assms]) simp
    moreover have "[i..<i + Suc n] = i # [Suc i..<Suc i + n]" by (simp add: upt_conv_Cons)
    ultimately show ?case using Suc.IH [of "Suc i"] Suc.prems by (simp del: upt_Suc)
  qed
  then show ?thesis by (simp add: showInodeNames_def)
qed

section \<open>Directories\<close>

text \<open>C26: Adding an inode to a directory adds it to the multiset of entries if fewer than thirty are used,
  touches no other inode, and keeps the invariant. The answer is always success.\<close>

theorem add_refines_multiset:
  assumes "fs_inv s" and "k < 100" and "c < 100"
  shows "\<exists>t. add_to_direntry s (Inode k) (Inode c) = Some (True, t) \<and> fs_inv t \<and>
    dir_entries (dirContents (inodes t ! k)) =
      (if size (dir_entries (dirContents (inodes s ! k))) < 30
       then add_mset c (dir_entries (dirContents (inodes s ! k))) else dir_entries (dirContents (inodes s ! k))) \<and>
    (\<forall>j. j \<noteq> k \<longrightarrow> inodes t ! j = inodes s ! j)"
proof -
  have "slots_inv (dirContents (inodes s ! k))" by (rule fcb_ok_slots [OF fs_inv_fcb [OF assms(1,2)]])
  from dir_slots.entries_put_cases [OF this, of c] fs_inv_add [OF assms] fs_inv_length [OF assms(1)] assms(2)
  show ?thesis by auto
qed

theorem add_refines_multiset_witness:
  "\<exists>t. add_to_direntry demo_file_fs (Inode 0) (Inode 2) = Some (True, t) \<and>
    dir_entries (dirContents (inodes t ! 0)) = {#1, 2#}"
proof -
  have "dir_entries (dirContents (inodes demo_file_fs ! 0)) = {#1#}"
    by (simp add: demo_file_root dir_entries_def used_slots_def)
  then show ?thesis using add_refines_multiset [OF demo_file_inv, of 0 2] by (auto simp: add_mset_commute)
qed

text \<open>A directory with no free slot stays as it is, and \<open>add_to_direntry\<close> reports success all the
  same: the test for the maximum is never met.\<close>

lemma add_full_reports_success:
  assumes "fs_inv s" and "k < 100" and "c < 100" and "Null \<notin> set (dirContents (inodes s ! k))"
  shows "add_to_direntry s (Inode k) (Inode c) = Some (True, s)"
proof -
  have f: "fcb_ok (inodes s ! k)" by (rule fs_inv_fcb [OF assms(1,2)])
  then have l: "length (dirContents (inodes s ! k)) = 30" by (rule fcb_ok_dir_length)
  then have "free_slot (dirContents (inodes s ! k)) = None"
    using assms(4) by (auto simp: free_entry.search_None_iff in_set_conv_nth)
  then have "put_entry c (dirContents (inodes s ! k)) = dirContents (inodes s ! k)"
    using l by (simp add: put_entry_free)
  moreover have "(inodes s ! k)\<lparr>dirContents := dirContents (inodes s ! k)\<rparr> = inodes s ! k" by simp
  ultimately show ?thesis using fs_inv_add [OF assms(1-3)] by auto
qed

text \<open>C28: Taking out entry \<open>j\<close> is defined exactly if the walk for the last entry, which steps over the
  slot behind each used one, ends at the end of the slots and not one behind it; then slot \<open>j\<close>
  receives the last slot, used or not, and the last becomes null. When the last slot is used
  only if all are, the walk ends well.\<close>

theorem indexed_remove_defined:
  assumes "k < length (inodes s)" and "length (dirContents (inodes s ! k)) = 30" and "j < 30"
  defines "dc \<equiv> dirContents (inodes s ! k)"
  shows "(indexed_remove_from_direntry s (Inode k) (int j) =
      (if last_walk dc 0 = 30
       then Some (True, s\<lparr>inodes := (inodes s)[k := (inodes s ! k)\<lparr>dirContents := (dc[j := dc ! 29])[29 := Null]\<rparr>]\<rparr>)
       else None)) \<and>
    (dir_packed dc \<longrightarrow> last_walk dc 0 = 30)"
proof -
  have "last_walk dc 0 = 30 \<or> last_walk dc 0 = 31" using last_walk_range [of 0 dc] by arith
  moreover have "(dc[29 := dc ! 29])[29 := Null] = dc[29 := Null]" by simp
  ultimately have "indexed_remove_from_direntry s (Inode k) (int j) =
      (if last_walk dc 0 = 30
       then Some (True, s\<lparr>inodes := (inodes s)[k := (inodes s ! k)\<lparr>dirContents := (dc[j := dc ! 29])[29 := Null]\<rparr>]\<rparr>)
       else None)"
    using assms(1-3) unfolding dc_def
    by (auto simp: indexed_remove_from_direntry_def Let_def arr_get_def arr_set_def)
  then show ?thesis using last_walk_packed by blast
qed

theorem indexed_remove_defined_witness:
  "indexed_remove_from_direntry (demo_fs\<lparr>inodes := [fcb0\<lparr>dirContents := replicate 29 Null @ [Inode 7]\<rparr>]\<rparr>) (Inode 0) 0 = None"
proof -
  let ?dc = "replicate 29 Null @ [Inode 7]"
  have n: "i \<le> 29 \<Longrightarrow> last_walk ?dc i = 31" for i
  proof (induction "29 - i" arbitrary: i)
    case 0
    then show ?case by (simp add: last_walk.simps [of ?dc 29] last_walk.simps [of ?dc 31] nth_append)
  next
    case (Suc x)
    then have "last_walk ?dc (Suc i) = 31" and "i < 29" by simp_all
    then show ?case by (simp add: last_walk.simps [of ?dc i] nth_append)
  qed
  show ?thesis
    using indexed_remove_defined [of 0 "demo_fs\<lparr>inodes := [fcb0\<lparr>dirContents := ?dc\<rparr>]\<rparr>" 0] n [of 0] by simp
qed

text \<open>C25: Removing an inode from a directory whose entries carry their own numbers takes one occurrence out
  of the multiset of entries, and nothing if there is none, which is reported as success too.\<close>

theorem remove_refines_multiset:
  assumes "fs_inv s" and "k < 100" and "c < 100" and "inumber (inodes s ! c) = of_nat c"
    and "\<forall>m \<in># dir_entries (dirContents (inodes s ! k)). m < 100 \<and> inumber (inodes s ! m) = of_nat m"
  shows "\<exists>t. remove_from_direntry s (Inode k) (Inode c) = Some (True, t) \<and> fs_inv t \<and>
    dir_entries (dirContents (inodes t ! k)) = dir_entries (dirContents (inodes s ! k)) - {#c#} \<and>
    (c \<notin># dir_entries (dirContents (inodes s ! k)) \<longrightarrow> t = s)"
proof -
  let ?dc = "dirContents (inodes s ! k)"
  have f: "fcb_ok (inodes s ! k)" by (rule fs_inv_fcb [OF assms(1,2)])
  then have si: "slots_inv ?dc" and l: "length ?dc = 30" by (auto intro: fcb_ok_slots fcb_ok_dir_length)
  have inj: "m = c" if "m < 100" "(of_nat m :: c_short) = of_nat c" for m
  proof -
    have "int m = int c" using sint_of_nat_short [OF that(1)] sint_of_nat_short [OF assms(3)] by (simp only: that(2))
    then show ?thesis by simp
  qed
  have num: "numbered_slot s k (inumber (inodes s ! c)) j \<longleftrightarrow> slot_of ?dc j = Some c" if "j < 30" for j
  proof (cases "?dc ! j")
    case (Inode m)
    then have "slot_of ?dc j = Some m" using that l by (simp add: slot_of_Some_iff)
    then have "m \<in># dir_entries ?dc" by (rule dir_slots.slot_entry [OF si])
    then have "m < 100" "inumber (inodes s ! m) = of_nat m" using assms(5) by auto
    then show ?thesis using Inode that l assms(4) inj by (auto simp: numbered_slot_def slot_of_Some_iff)
  qed (use that l in \<open>simp_all add: numbered_slot_def slot_of_def\<close>)
  note inv = fs_inv_remove [OF assms(1-3)] and run = remove_from_direntry_spec [OF assms(1-3)]
  show ?thesis
  proof (cases "find (numbered_slot s k (inumber (inodes s ! c))) [0..<30]")
    case None
    then have "\<not> numbered_slot s k (inumber (inodes s ! c)) j" if "j < 30" for j
      using that by (simp add: find_upt_None_iff)
    then have "slot_of ?dc j \<noteq> Some c" for j
      using num l by (cases "j < 30") (auto simp: slot_of_def)
    then have "c \<notin># dir_entries ?dc" using dir_slots.entry_slot [OF si] by blast
    then show ?thesis using None inv run by (simp add: diff_single_trivial)
  next
    case (Some j)
    then have "j < 30" "slot_of ?dc j = Some c" using num by (auto simp: find_upt_Some_iff)
    then have "dir_entries (take_entry j ?dc) = dir_entries ?dc - {#c#}" and "c \<in># dir_entries ?dc"
      using dir_slots.entries_take [OF si] dir_slots.slot_entry [OF si] by auto
    then show ?thesis using Some inv run fs_inv_length [OF assms(1)] assms(2) by simp
  qed
qed

theorem remove_refines_multiset_witness:
  "\<exists>t. remove_from_direntry demo_file_fs (Inode 0) (Inode 1) = Some (True, t) \<and>
    dir_entries (dirContents (inodes t ! 0)) = {#}"
proof -
  have d: "dir_entries (dirContents (inodes demo_file_fs ! 0)) = {#1#}"
    by (simp add: demo_file_root dir_entries_def used_slots_def)
  have "inumber (inodes demo_file_fs ! 1) = 1" unfolding demo_file_new by (simp add: new_fcb_def)
  then show ?thesis using remove_refines_multiset [OF demo_file_inv, of 0 1] d by auto
qed

section \<open>Numbers that are used again\<close>

text \<open>C29: \<open>create_inode\<close> sets the names, the mode, the owner, the time and the numbers of the inode it takes,
  but neither its entries nor its size: a directory created under a number that was used before
  lists what the old one held.\<close>

theorem reused_inode_keeps_entries:
  assumes "fs_inv s" and "env_ok e" and "dev_ok e (dev s)" and "path_fits e p"
    and "findFileOrDir e s p = Some Null" and "create_inode e s p m = Some (Inode i, t)"
    and "\<forall>q. getRelativeParentName e (Some p) = Some q \<longrightarrow> create_parent e s p q \<noteq> Some (Inode i)"
    and "Null \<in> set (dirContents (inodes s ! i))"
  shows "sfs_readdir e t p = Some (0, ''.'' # ''..'' # map (\<lambda>x. name_of (inodes t ! ptr_index x))
      (takeWhile (\<lambda>x. x \<noteq> Null) (dirContents (inodes s ! i))), t) \<and>
    fileSize (inodes t ! i) = fileSize (inodes s ! i)"
proof -
  have p: "cstring p" using assms(4) by (simp add: path_fits_def)
  obtain k q where t: "t = flushed e (created e s (relativeName p) q m k i)"
    and inv: "fs_inv (created e s (relativeName p) q m k i)" and i: "i < nat (n_inodes s)" "i < 100"
    and q: "getRelativeParentName e (Some p) = Some q" "create_parent e s p q = Some (Inode k)"
    by (rule create_inode_SomeE [OF assms(1-4,6)])
  have f: "findFileOrDir e t p = Some (Inode i)"
    using created_found [OF assms(1) inv i(1) p refl q(1) assms(5)] t by simp
  have l: "i < length (inodes s)" using i(2) fs_inv_length [OF assms(1)] by simp
  have "k \<noteq> i" using assms(7) q by blast
  then have g: "dirContents (inodes t ! i) = dirContents (inodes s ! i)" "fileSize (inodes t ! i) = fileSize (inodes s ! i)"
    using created_new [OF l] t by (simp_all add: new_fcb_def link_inodes_def)
  have "fs_inv t" using inv t by simp
  from sfs_readdir_run [OF this p, of e] f g assms(8) show ?thesis
    by (simp add: listed_names_def listed_def)
qed

definition demo_left_fs :: fs where
  "demo_left_fs = demo_fs\<lparr>inodes := (inodes demo_fs)[1 := fcb0\<lparr>dirContents := Inode 0 # replicate 29 Null\<rparr>]\<rparr>"

lemma demo_left_inv: "fs_inv demo_left_fs"
proof -
  have "fcb_ok (fcb0\<lparr>dirContents := Inode 0 # replicate 29 Null\<rparr>)"
    using fcb0_ok by (simp add: fcb_ok_def fcb_sized_def names_ok_def dir_ok_def dir_packed_def ptr_ok_def list_all_iff)
  then show ?thesis
    unfolding demo_left_fs_def by (intro fs_inv_update [OF demo_inv]) (simp_all add: fcb0_def number_ok_def)
qed

lemma demo_left_no_a: "findFileOrDir demo_env demo_left_fs ''/a'' = Some Null"
proof -
  have "fileName (inodes demo_left_fs ! j) = fileName (inodes demo_fs ! j)"
    "parentDir (inodes demo_left_fs ! j) = parentDir (inodes demo_fs ! j)" for j
    using fs_inv_length [OF demo_inv] by (cases "j = 1"; simp add: demo_left_fs_def demo_inodes)+
  then show ?thesis
    using findFileOrDir_cong [OF demo_left_inv demo_inv, of "''/a''" demo_env] demo_no_a
    by (simp add: cstring_def demo_left_fs_def)
qed

theorem reused_inode_keeps_entries_witness:
  "\<exists>t n. create_inode demo_env demo_left_fs ''/a'' 16384 = Some (Inode 1, t) \<and>
    sfs_readdir demo_env t ''/a'' = Some (0, [''.'', ''..'', n], t)"
proof -
  have d: "dev_ok demo_env (dev demo_left_fs)" using demo_dev_ok by (simp add: demo_left_fs_def)
  have p: "create_parent demo_env demo_left_fs ''/a'' ''/'' = Some (Inode 0)"
    using findRoot_inv [OF demo_left_inv] by (simp add: create_parent_def)
  have "create_index (sBlock demo_left_fs) = Some 1" using demo_create_index by (simp add: demo_left_fs_def)
  then obtain t where c: "create_inode demo_env demo_left_fs ''/a'' 16384 = Some (Inode 1, t)"
    using create_at_run [OF demo_left_inv demo_env_ok d demo_path_fits _ _ demo_parent_name p, of 1 16384]
    by (simp add: create_inode_at [OF demo_left_inv])
  have dc: "dirContents (inodes demo_left_fs ! 1) = Inode 0 # replicate 29 Null"
    using fs_inv_length [OF demo_inv] by (simp add: demo_left_fs_def)
  from reused_inode_keeps_entries [OF demo_left_inv demo_env_ok d demo_path_fits demo_left_no_a c] demo_parent_name p c
  show ?thesis by (simp add: dc [simplified])
qed

section \<open>Memory that is lost\<close>

text \<open>Every search for a path other than the root loses memory: its result is that of \<open>findFileOrDir\<close>,
  and the bytes lost are the length of the path for each inode that carries its last component
  as its name, up to the one returned. A path that is found costs its length at least, each time.\<close>

lemma lookups_lose_memory:
  assumes "fs_inv s" and "heap_ok e" and "cstring p" and "slash \<in> set p" and "p \<noteq> ''/''"
  shows "\<exists>r lost. findFileOrDir e s p = Some r \<and> findFileOrDir_heap e s p = Some (r, lost) \<and>
    lost = length p * card {j. j < (case r of Inode k \<Rightarrow> Suc k | _ \<Rightarrow> nat (n_inodes s)) \<and>
      name_of (inodes s ! j) = relativeName p} \<and>
    (r \<noteq> Null \<longrightarrow> length p \<le> lost)"
proof -
  obtain r y where h: "findFileOrDir_heap e s p = Some (r, length p * tried s p 0 y)"
    and f: "findFileOrDir e s p = Some r" and y: "y = (case r of Inode k \<Rightarrow> Suc k | _ \<Rightarrow> nat (n_inodes s))"
    and pos: "r \<noteq> Null \<Longrightarrow> 0 < tried s p 0 y"
    using find_lost [OF assms(1) _ assms(3-5), of e] assms(2) by (auto simp: heap_ok_def)
  have "tried s p 0 y = card {j. j < y \<and> name_of (inodes s ! j) = relativeName p}"
    by (simp add: tried_def length_filter_conv_card cong: conj_cong)
  with h f y pos show ?thesis by auto
qed

text \<open>C30: The memory lookups lose runs out, and then paths are confused: after enough lookups of one path in
  a heap of any finite size, every path with the same last component and at least its length is found, also one
  that does not exist, as the directories are no longer compared.\<close>

theorem leak_confuses_paths:
  assumes "fs_inv s" and "heap_ok e" and "cstring p" and "slash \<in> set p" and "p \<noteq> ''/''"
    and "findFileOrDir e s p = Some (Inode k)"
    and "cstring p'" and "slash \<in> set p'" and "p' \<noteq> ''/''" and "relativeName p' = relativeName p"
    and "length p \<le> length p'" and "findFileOrDir e s p' = Some Null" and "cap < n * length p"
  shows "\<exists>lost. lost_after cap e s p 0 n = Some lost \<and>
    (\<exists>t. sfs_open e s p' = Some (- ENOENT, t)) \<and> sfs_open (on_heap cap lost e) s p' = Some (0, s)"
proof -
  have k: "k < nat (n_inodes s)" "entry_matches e p (inodes s ! k)"
    using findFileOrDir_nonroot [OF assms(1,3,5,6)] by simp_all
  from lost_after_run [OF assms(1,3-5) k(1) entry_matches_enough [OF assms(2) k(2)], of cap e 0 n] obtain u where
    u: "lost_after cap e s p 0 n = Some u" "cap < u + length p" using assms(13) by fastforce
  let ?e = "on_heap cap u e"
  have "\<not> alloc_ok ?e (length p')" using u(2) assms(11) by (simp add: on_heap_def)
  moreover have "name_of (inodes s ! k) = relativeName p'" using k(2) assms(10) by (simp add: entry_matches_def)
  ultimately have "entry_matches ?e p' (inodes s ! k)" by (simp add: refused_matches [OF assms(8)])
  then obtain j where "findFileOrDir ?e s p' = Some (Inode j)"
    by (rule found_if_matches [OF assms(1,7,9) k(1)])
  with u(1) assms(12) show ?thesis by (simp add: sfs_open_def Let_def)
qed

theorem leak_confuses_paths_witness:
  "\<exists>lost. lost_after 1000000 demo_env demo_file_fs ''/a'' 0 500001 = Some lost \<and>
    sfs_open (on_heap 1000000 lost demo_env) demo_file_fs ''/x/a'' = Some (0, demo_file_fs)"
proof -
  have r: "relativeName ''/a'' = ''a''" "relativeName ''/x/a'' = ''a''" by (simp_all add: relativeName_def)
  have q: "getRelativeParentName demo_env (Some ''/x/a'') = Some ''x''" by (simp add: getRelativeParentName_def demo_env_def)
  have no: "findFileOrDir demo_env demo_file_fs ''/x/a'' = Some Null"
    by (rule demo_file_none) (simp_all add: q r cstring_def)
  from leak_confuses_paths [OF demo_file_inv demo_heap_ok _ _ _ demo_file_found _ _ _ _ _ no, of 1000000 500001] show ?thesis
    using r by (auto simp: cstring_def)
qed

end
