(* ===== verification/Remount.thy ===== *)
theory Remount
  imports Sfs_Mount
begin

text \<open>
  What can go wrong when a disk file is mounted or formatted. The entries of a directory are
  stored as the addresses the inodes had in the process that wrote them, so a process with its
  array elsewhere reads pointers that point nowhere; and the count of inodes, read from the
  superblock or computed from the size of the disk, is used unchecked as the bound of loops
  over an array of a hundred.
\<close>

section \<open>Pointers from another address space\<close>

definition arrays_apart :: "c_long \<Rightarrow> c_long \<Rightarrow> bool" where
  "arrays_apart a b \<longleftrightarrow> unat a + 84000 \<le> unat b \<or> unat b + 84000 \<le> unat a"

lemma unat_inode_address:
  assumes "addr_ok a" and "k < 100"
  shows "unat (a + 840 * of_nat k) = unat a + 840 * k"
  using assms unat_inode_offset [of k] by (simp add: addr_ok_def unat_word_ariths(1))

lemma unat_sub_bounds:
  fixes w a :: c_long
  assumes "unat a + 84000 \<le> unat w \<or> unat w < unat a" and "unat a + 84000 \<le> 2 ^ 64"
  shows "84000 \<le> unat (w - a)"
proof (cases "a \<le> w")
  case True
  then show ?thesis using assms by (auto simp: unat_sub word_le_nat_alt)
next
  case False
  then have "unat (w - a) = unat w + 2 ^ 64 - unat a"
    by (simp add: unat_sub_if_size size_word.rep_eq word_le_nat_alt)
  then show ?thesis using False assms(2) by (simp add: word_le_nat_alt)
qed

lemma ptr_moved:
  assumes "addr_ok a" and "addr_ok b" and "arrays_apart a b" and "k < 100"
  shows "ptr_of_value b (ptr_value a (Inode k)) = Wild (ptr_value a (Inode k))"
proof -
  let ?w = "a + 840 * of_nat k"
  have w: "unat ?w = unat a + 840 * k" by (rule unat_inode_address [OF assms(1,4)])
  have "unat b + 84000 \<le> unat ?w \<or> unat ?w < unat b"
    using assms(3,4) w by (auto simp: arrays_apart_def)
  then have "84000 \<le> unat (?w - b)"
    using assms(2) by (intro unat_sub_bounds) (simp_all add: addr_ok_def)
  from div_le_mono [OF this, of 840] have "100 \<le> unat (?w - b) div 840" by simp
  moreover have "?w \<noteq> 0" by (rule inode_address_nonzero [OF assms(1,4)])
  ultimately show ?thesis by (simp add: ptr_of_value_def Let_def)
qed

section \<open>The lookup does not follow pointers\<close>

lemma getRelativeParentName_heap:
  "alloc_ok e' = alloc_ok e \<Longrightarrow> getRelativeParentName e' p = getRelativeParentName e p"
  by (simp only: getRelativeParentName_def)

lemma findFileOrDir_loop_from:
  "findFileOrDir_loop e s p r x n = Some (Inode k) \<Longrightarrow> x \<le> k"
proof (induction n arbitrary: x)
  case 0
  then show ?case by simp
next
  case (Suc n)
  from Suc.IH [of "Suc x"] Suc.prems show ?case
    by (auto simp: Option.bind_eq_Some_conv split: if_splits option.splits)
qed

text \<open>What is found is found as well in a state whose inodes up to it have the same names.\<close>

lemma findFileOrDir_loop_prefix:
  assumes "findFileOrDir_loop e s p r x n = Some (Inode k)"
    and "alloc_ok e' = alloc_ok e" and "length (inodes s) = length (inodes t)"
    and "\<And>i. i \<le> k \<Longrightarrow> fileName (inodes s ! i) = fileName (inodes t ! i)"
    and "\<And>i. i \<le> k \<Longrightarrow> parentDir (inodes s ! i) = parentDir (inodes t ! i)"
  shows "findFileOrDir_loop e' t p r x n = Some (Inode k)"
  using assms(1)
proof (induction n arbitrary: x)
  case 0
  then show ?case by simp
next
  case (Suc n)
  have x: "x \<le> k" by (rule findFileOrDir_loop_from [OF Suc.prems])
  have l: "x < length (inodes s)"
    using Suc.prems by (auto simp: Option.bind_eq_Some_conv dest: arr_get_SomeD)
  have f: "arr_get (inodes s) (int x) = Some (inodes s ! x)" "arr_get (inodes t) (int x) = Some (inodes t ! x)"
    using l assms(3) by (simp_all add: arr_get_def)
  have names: "fileName (inodes t ! x) = fileName (inodes s ! x)" "parentDir (inodes t ! x) = parentDir (inodes s ! x)"
    using assms(4,5) x by simp_all
  note g = getRelativeParentName_heap [OF assms(2)]
  let ?same = "strcmp_eq (fileName (inodes s ! x)) r"
  let ?q = "getRelativeParentName e (Some p)"
  have IH: "findFileOrDir_loop e s p r (Suc x) n = Some (Inode k) \<Longrightarrow>
      findFileOrDir_loop e' t p r (Suc x) n = Some (Inode k)" by (rule Suc.IH)
  consider "?same = Some False" | "?same = Some True" "?q = None"
    | q where "?same = Some True" "?q = Some q"
    using Suc.prems by (cases ?same; cases ?q) (auto simp: f)
  then show ?case
  proof cases
    case 1
    then show ?thesis using Suc.prems IH by (simp add: f names)
  next
    case 2
    then have "findFileOrDir_loop e' t p r x (Suc n) = findFileOrDir_loop e s p r x (Suc n)"
      by (simp add: f names g)
    then show ?thesis using Suc.prems by simp
  next
    case (3 q)
    then show ?thesis
      using Suc.prems IH by (cases "strcmp_eq (parentDir (inodes s ! x)) q") (auto simp: f names g)
  qed
qed

section \<open>A count of inodes beyond the array\<close>

lemma inode_read_nowhere: "inode_read w e d b [] off = None"
  by (auto simp: inode_read_def clear_buf_def Let_def Option.bind_eq_None_conv pread_def split: prod.splits)

lemma init_loop_overrun:
  assumes "length (inodes s) = 100" and "i \<le> 100" and "100 < i + n"
  shows "init_loop e s i n pos = None"
  using assms
proof (induction n arbitrary: i s pos)
  case 0
  then show ?case by simp
next
  case (Suc n)
  show ?case
  proof (cases "i = 100")
    case True
    then show ?thesis
      using Suc.prems(1) inode_read_nowhere by (simp add: inodes_memory_def array_bytes_def)
  next
    case False
    then have i: "i < 100" using Suc.prems(2) by simp
    have IH: "init_loop e s' (Suc i) n pos' = None" if "length (inodes s') = 100" for s' pos'
      using that i Suc.prems(3) by (intro Suc.IH) simp_all
    show ?thesis
      using Suc.prems(1) i
      by (auto simp: Option.bind_eq_None_conv Let_def IH split: prod.splits)
  qed
qed

lemma sfs_init_overrun:
  assumes "mount_ok e" and "11744 \<le> length f"
    and "100 < sint (numInodes (superblock_of_bytes (take 11744 f)))"
  shows "sfs_init e (fs0 f) = None"
proof -
  have "sBlock_read e (dev (opened e f)) 0 (stack_buf e) 11744 = Some (11744, take 11744 f)"
    using sBlock_read_full [OF dev_ok_opened [OF assms(1)], of 11744 f] assms(1,2)
    by (simp add: mount_ok_def)
  then show ?thesis
    using assms(3) by (simp add: sfs_init_open [OF assms(1)] Let_def init_loop_overrun)
qed

text \<open>The first flush goes from inode 1 up to two less than the count.\<close>

lemma flush_first_overrun:
  assumes "length (inodes s) = 100" and "i \<le> 100" and "100 < i + n"
  shows "flush_first_loop e s i n pos = None"
  using assms
proof (induction n arbitrary: i s pos)
  case 0
  then show ?case by simp
next
  case (Suc n)
  show ?case
  proof (cases "i = 100")
    case True
    then show ?thesis using Suc.prems(1) by (simp add: arr_get_def)
  next
    case False
    then have i: "i < 100" using Suc.prems(2) by simp
    have IH: "flush_first_loop e s' (Suc i) n pos' = None" if "length (inodes s') = 100" for s' pos'
      using that i Suc.prems(3) by (intro Suc.IH) simp_all
    show ?thesis
      using Suc.prems(1) by (auto simp: Option.bind_eq_None_conv Let_def IH split: prod.splits)
  qed
qed

lemma inode_count_range: "format_range R \<Longrightarrow> inode_count R 0 \<le> 265"
  using used_after_closed [of 265] by (simp add: inode_count_le_iff stops_def format_range_def)

lemma format_overrun:
  assumes "fresh s" and "0 \<le> diskSize s" and "format_range (diskSize s - 11744)" and "101 < format_count s"
  shows "formatDisk e s = None"
proof -
  let ?n = "format_count s"
  have n: "?n \<le> 265" using inode_count_range [OF assms(3)] by (simp add: format_count_def)
  have l: "length (inodes s) = 100" using assms(1) by (simp add: fresh_def)
  have c: "sint (numInodes (formatted_sBlock (sBlock s) ?n)) = int ?n"
    using n by (simp add: formatted_sBlock_def signed_of_nat signed_take_bit_int_eq_self)
  have fl: "flushAllInodesTodisk e True t = None"
    if "length (inodes t) = 100" and "sBlock t = formatted_sBlock (sBlock s) ?n" for t
  proof -
    have "n_inodes t = int ?n" using that(2) c by simp
    moreover have "checked_int (int ?n - 1) = Some (int ?n - 1)"
      using n by (intro checked_int_Some) (simp add: int_ok_def)
    ultimately show ?thesis
      using flush_first_overrun [OF that(1), of 1] assms(4) by (simp add: flushAllInodesTodisk_def)
  qed
  show ?thesis
    using format_superblock_run [OF assms(1-3)] l fl
    by (auto simp: formatDisk_def Option.bind_eq_None_conv Let_def arr_set_def arr_get_def split: prod.splits)
qed

end
