(* ===== verification/Short_Disk.thy ===== *)
theory Short_Disk
  imports Remount
begin

text \<open>
  Mounting a disk file that ends before the slots of its inodes do. A slot that lies partly behind the
  end is read in part; one that lies behind it is an end of file, which \<open>sfs_init\<close> takes for an
  inode that is not there: the slot is tried again for the next inode, and \<open>inode_read\<close> clears a
  whole block of memory from the inode on, which are nearly five inodes.
\<close>

section \<open>Typed states\<close>

text \<open>
  What is read from a short file need not be well-formed, but it has the lengths the declarations
  of \<open>knoten.h\<close> give, and its pointers are null, inside the array of inodes or outside it.
\<close>

definition typed_fs :: "c_long \<Rightarrow> fs \<Rightarrow> bool" where
  "typed_fs a s \<longleftrightarrow> superblock_typed (sBlock s) \<and> length (inodes s) = NUM_INODES \<and>
     list_all (fcb_typed a) (inodes s)"

lemma length_inode_read: "inode_read w e d n buf off = Some (r, mem) \<Longrightarrow> length mem = length buf"
  by (auto simp: inode_read_def clear_buf_def Let_def dest!: option_bind_SomeD split: if_splits prod.splits)

lemma array_of_bytes_typed:
  assumes "length mem = 840 * n"
  shows "list_all (fcb_typed a) (array_of_bytes (fcb_of_bytes a) 840 n mem)"
  using assms chunks_all [of mem 840 n] fcb_typed_of_bytes
  by (auto simp: array_of_bytes_def list_all_iff)

lemma length_inodes_memory:
  assumes "typed_fs (inodes_addr e) s"
  shows "length (inodes_memory e s i) = 840 * (100 - i)"
  using assms unfolding inodes_memory_def array_bytes_def typed_fs_def
  by (subst length_concat_const [where w = 840]) (auto simp: list_all_iff length_fcb_bytes dest: in_set_dropD)

lemma loaded_array_typed:
  assumes "typed_fs a s" and "length mem = 840 * (100 - i)"
  shows "typed_fs a (s\<lparr>inodes := take i (inodes s) @ array_of_bytes (fcb_of_bytes a) 840 (length (inodes s) - i) mem\<rparr>)"
  using assms array_of_bytes_typed [of mem "100 - i" a]
  by (auto simp: typed_fs_def list_all_iff dest: in_set_takeD)

section \<open>A slot that begins in the file\<close>

lemma inode_read_some:
  assumes "dev_ok e d" and "block_offset n off = Some (int p)" and "p < length (disk d)"
    and "0 < w" and "w \<le> length buf"
  obtains r mem where "inode_read w e d n buf off = Some (r, mem)" and "0 < r" and "length mem = length buf"
proof -
  let ?bs = "file_read w p (disk d)"
  have "0 < length ?bs" "length ?bs \<le> w" using assms(3,4) by (simp_all add: file_read_def)
  then show ?thesis
    using that [of "int (length ?bs)" "blit ?bs buf"] assms live_fd_ok [OF assms(1)]
    by (auto simp: inode_read_def pread_ok Let_def)
qed

lemma init_loop_reads:
  assumes "dev_ok e (dev s)" and "typed_fs (inodes_addr e) s" and "geometry_ok (sBlock s)" and "i < 100"
    and "slot_offset i < length (disk (dev s))"
  obtains t where "init_loop e s i (Suc n) (slot_pos i) = init_loop e t (Suc i) n (slot_pos (Suc i))"
    and "typed_fs (inodes_addr e) t" and "geometry_ok (sBlock t)" and "dev t = dev s"
proof -
  let ?a = "inodes_addr e"
  have l: "length (inodes_memory e s i) = 840 * (100 - i)" by (rule length_inodes_memory [OF assms(2)])
  then have "840 \<le> length (inodes_memory e s i)" using assms(4) by linarith
  from inode_read_some [OF assms(1) block_offset_slot [OF assms(4)] assms(5) _ this] obtain r mem where
    rd: "inode_read 840 e (dev s) (snd (slot_pos i)) (inodes_memory e s i) (wrap32 (fst (slot_pos i) * 840)) = Some (r, mem)"
    and r: "0 < r" and m: "length mem = 840 * (100 - i)"
    using l by auto
  let ?fs = "take i (inodes s) @ array_of_bytes (fcb_of_bytes ?a) 840 (length (inodes s) - i) mem"
  have s1: "typed_fs ?a (s\<lparr>inodes := ?fs\<rparr>)" by (rule loaded_array_typed [OF assms(2) m])
  then have len: "length ?fs = 100" by (simp add: typed_fs_def)
  have "i < length (dbmap (sBlock s))" using assms(2,4) by (simp add: typed_fs_def superblock_typed_def)
  note mark = mark_data_in [OF this, of "?fs ! i"]
  let ?t = "s\<lparr>inodes := ?fs, sBlock := (sBlock s)\<lparr>dbmap := (dbmap (sBlock s))[i := data_flag (?fs ! i) (dbmap (sBlock s) ! i)]\<rparr>\<rparr>"
  have g: "geometry_ok (sBlock ?t)" using assms(3) by (simp add: geometry_ok_def superblock_typed_def)
  have "arr_get ?fs (int i) = Some (?fs ! i)" using len assms(4) by (simp add: arr_get_def)
  then have "init_loop e s i (Suc n) (slot_pos i) = init_loop e ?t (Suc i) n (slot_pos (Suc i))"
    using rd r mark next_slot_pos [OF g] by (simp add: Let_def)
  moreover have "typed_fs ?a ?t" using s1 by (simp add: typed_fs_def superblock_typed_def)
  ultimately show ?thesis using that [OF _ _ g] by simp
qed

section \<open>From the end of the file on\<close>

lemma init_loop_eof:
  assumes "dev_ok e (dev s)" and "typed_fs (inodes_addr e) s" and "c < 100"
    and "length (disk (dev s)) \<le> slot_offset c" and "i + n \<le> 100"
  shows "init_loop e s i n (slot_pos c) = None \<longleftrightarrow> 0 < n \<and> 96 < i + n"
  using assms
proof (induction n arbitrary: i s)
  case 0
  then show ?case by simp
next
  case (Suc n)
  have l: "length (inodes_memory e s i) = 840 * (100 - i)" by (rule length_inodes_memory [OF Suc.prems(2)])
  show ?case
  proof (cases "i < 96")
    case True
    then have "4096 \<le> length (inodes_memory e s i)" using l by linarith
    note rd = inode_read_eof [OF Suc.prems(1) block_offset_slot [OF Suc.prems(3)] Suc.prems(4) this, of 840]
    let ?mem = "blit (replicate 4096 0) (inodes_memory e s i)"
    let ?t = "s\<lparr>inodes := take i (inodes s) @ array_of_bytes (fcb_of_bytes (inodes_addr e)) 840 (length (inodes s) - i) ?mem\<rparr>"
    have "length ?mem = 840 * (100 - i)" using length_inode_read [OF rd] l by simp
    then have "typed_fs (inodes_addr e) ?t" by (rule loaded_array_typed [OF Suc.prems(2)])
    then have "init_loop e ?t (Suc i) n (slot_pos c) = None \<longleftrightarrow> 0 < n \<and> 96 < Suc i + n"
      using Suc.prems by (intro Suc.IH) simp_all
    then show ?thesis using rd True by auto
  next
    case False
    have "inode_read 840 e (dev s) (snd (slot_pos c)) (inodes_memory e s i) (wrap32 (fst (slot_pos c) * 840)) = None"
    proof -
      have "file_read 840 (slot_offset c) (disk (dev s)) = []" using Suc.prems(4) by (simp add: file_read_def)
      moreover have "length (inodes_memory e s i) < 4096" using l False by linarith
      ultimately show ?thesis
        using block_offset_slot [OF Suc.prems(3)] live_fd_ok [OF Suc.prems(1)]
        by (simp add: inode_read_def pread_ok Let_def clear_buf_def blit_def)
    qed
    then show ?thesis using False Suc.prems(5) by simp
  qed
qed

section \<open>The whole loop\<close>

lemma init_loop_undefined_iff:
  assumes "dev_ok e (dev s)" and "typed_fs (inodes_addr e) s" and "geometry_ok (sBlock s)" and "i + n \<le> 100"
  shows "init_loop e s i n (slot_pos i) = None \<longleftrightarrow>
    0 < n \<and> 96 < i + n \<and> length (disk (dev s)) \<le> slot_offset (i + n - 1)"
  using assms
proof (induction n arbitrary: i s)
  case 0
  then show ?case by simp
next
  case (Suc n)
  have i: "i < 100" using Suc.prems(4) by simp
  have le: "slot_offset i \<le> slot_offset (i + n)" using slot_offset_mono [of i "i + n"] by (cases "n = 0") auto
  show ?case
  proof (cases "slot_offset i < length (disk (dev s))")
    case True
    from init_loop_reads [OF Suc.prems(1-3) i True, of n] obtain t where
      t: "init_loop e s i (Suc n) (slot_pos i) = init_loop e t (Suc i) n (slot_pos (Suc i))"
        "typed_fs (inodes_addr e) t" "geometry_ok (sBlock t)" "dev t = dev s" .
    have "init_loop e t (Suc i) n (slot_pos (Suc i)) = None \<longleftrightarrow>
        0 < n \<and> 96 < Suc i + n \<and> length (disk (dev t)) \<le> slot_offset (Suc i + n - 1)"
      using Suc.prems t by (intro Suc.IH) simp_all
    then show ?thesis using t(1,4) True by (cases "n = 0") auto
  next
    case False
    then show ?thesis
      using init_loop_eof [OF Suc.prems(1,2) i _ Suc.prems(4)] le by simp
  qed
qed

end
