(* ===== verification/Mount_Properties.thy ===== *)
theory Mount_Properties
  imports Short_Disk Example_State
begin

text \<open>
  What mounting does with disk files it should not trust: one written by a process whose
  inodes lay at other addresses, and one whose superblock counts more inodes than there are.
\<close>

section \<open>Another address space\<close>

text \<open>C10: The entries of a directory are written to the disk file as addresses. A process that mounts
  the file with its array of inodes elsewhere, and is granted the same requests for memory, still finds
  every path under its old number, except
  the last inode, but listing a directory whose first slot is used follows a pointer to nowhere.\<close>

theorem remount_moved:
  assumes "fs_inv s" and "env_ok e" and "dev_ok e (dev s)" and "holds_last s" and "mount_ok e'"
    and "alloc_ok e' = alloc_ok e" and "arrays_apart (inodes_addr e) (inodes_addr e')"
    and "findFileOrDir e s p = Some (Inode k)" and "int k < n_inodes s - 1"
    and "dirContents (inodes s ! k) ! 0 \<noteq> Null"
  shows "\<exists>s' t. flushAllInodesTodisk e False s = Some (True, s') \<and> sfs_init e' (fs0 (disk (dev s'))) = Some t \<and>
    findFileOrDir e' t p = Some (Inode k) \<and> sfs_readdir e' t p = None"
proof -
  have n: "nat (n_inodes s) \<le> 100" and k: "k < 100"
    using fs_inv_count [OF assms(1)] assms(9) by linarith+
  let ?t = "loaded e' 0 (nat (n_inodes s)) ((opened e' (disk (dev (flushed e s))))\<lparr>sBlock := sBlock s\<rparr>)"
  have l: "length (inodes ?t) = 100" and c: "n_inodes ?t = n_inodes s" by (simp_all add: loaded_def Let_def)
  have at: "inodes ?t ! i = (inodes s ! i)\<lparr>dirContents :=
      map (\<lambda>p. ptr_of_value (inodes_addr e') (ptr_value (inodes_addr e) p)) (dirContents (inodes s ! i))\<rparr>"
    if "i \<le> k" for i
    using read_inode_at [OF assms(1,2), of i e'] that assms(9) n by (simp add: loaded_def Let_def)
  have found: "findFileOrDir e' ?t p = Some (Inode k)"
  proof (cases "p = ''/''")
    case True
    then show ?thesis
      using assms(8) findRoot_inv [OF assms(1)] l by (simp add: findFileOrDir_def findRootOrDieTrying_def inode_address_def)
  next
    case False
    then have "findFileOrDir_loop e s p (relativeName p) 0 (nat (n_inodes s)) = Some (Inode k)"
      using assms(8) by (simp add: findFileOrDir_def)
    from findFileOrDir_loop_prefix [OF this assms(6), of ?t] have
      "findFileOrDir_loop e' ?t p (relativeName p) 0 (nat (n_inodes s)) = Some (Inode k)"
      using at l fs_inv_length [OF assms(1)] by simp
    with False c show ?thesis by (simp add: findFileOrDir_def)
  qed
  have dir: "length (dirContents (inodes s ! k)) = 30" "ptr_ok (dirContents (inodes s ! k) ! 0)"
    using fs_inv_fcb [OF assms(1) k] by (simp_all add: fcb_ok_def fcb_sized_def dir_ok_def list_all_length)
  then obtain j where j: "dirContents (inodes s ! k) ! 0 = Inode j" "j < 100"
    using assms(10) by (auto simp: ptr_ok_def)
  have a: "addr_ok (inodes_addr e)" "addr_ok (inodes_addr e')"
    using assms(2,5) by (simp_all add: env_ok_def mount_ok_def)
  have "arr_get (dirContents (inodes ?t ! k)) 0 = Some (Wild (ptr_value (inodes_addr e) (Inode j)))"
    using ptr_moved [OF a assms(7) j(2)] dir(1) j(1) by (simp add: at arr_get_def)
  then have "readdir_loop ?t (dirContents (inodes ?t ! k)) 0 = None"
    by (simp add: readdir_loop.simps [of _ _ 0])
  then have "sfs_readdir e' ?t p = None"
    using found k l by (simp add: sfs_readdir_def)
  with found show ?thesis
    using flush_run [OF assms(1-3)] remount_run [OF assms(1,2,5,4)] by blast
qed

definition moved_env :: env where
  "moved_env = demo_env\<lparr>inodes_addr := 0x55d0c0a04000\<rparr>"

theorem remount_moved_witness:
  "\<exists>s' t. flushAllInodesTodisk demo_env False demo_file_fs = Some (True, s') \<and>
    sfs_init moved_env (fs0 (disk (dev s'))) = Some t \<and> sfs_readdir moved_env t ''/'' = None"
proof -
  have "mount_ok moved_env"
    using demo_mount_ok by (simp add: moved_env_def mount_ok_def env_ok_def io_ok_def heap_ok_def addr_ok_def)
  moreover have "arrays_apart (inodes_addr demo_env) (inodes_addr moved_env)"
    by (simp add: arrays_apart_def moved_env_def demo_env_def)
  moreover have "findFileOrDir demo_env demo_file_fs ''/'' = Some (Inode 0)"
    using findRoot_inv [OF demo_file_inv] by (simp add: findFileOrDir_def)
  moreover have "alloc_ok moved_env = alloc_ok demo_env" by (simp add: moved_env_def)
  ultimately show ?thesis
    using remount_moved [OF demo_file_inv demo_env_ok demo_file_dev_ok demo_file_holds_last, of moved_env "''/''" 0]
      demo_file_root demo_file_n by auto
qed

section \<open>A count beyond the array\<close>

text \<open>C23: Whether a disk file with the program's own geometry can be mounted depends on the count in the
  superblock and on where the file ends. With more than a hundred inodes \<open>sfs_init\<close>, which does not check
  the count, reads behind the array. With 97 to a hundred, of which the last is behind the end of the file, it
  clears a block of memory that reaches over the end of the array. In every other case, also with a negative count, it
  succeeds.\<close>

theorem mount_undefined_iff:
  assumes "mount_ok e" and "11744 \<le> length f" and "sb = superblock_of_bytes (take 11744 f)"
    and "inodeStartIndex sb = 3" and "numInodesPerBlock sb = 4"
  shows "sfs_init e (fs0 f) = None \<longleftrightarrow> 100 < sint (numInodes sb) \<or>
    (96 < sint (numInodes sb) \<and> length f \<le> slot_offset (nat (sint (numInodes sb)) - 1))"
proof (cases "100 < sint (numInodes sb)")
  case True
  then show ?thesis using sfs_init_overrun [OF assms(1,2)] assms(3) by simp
next
  case small: False
  let ?n = "nat (sint (numInodes sb))"
  let ?s = "(opened e f)\<lparr>sBlock := sb\<rparr>"
  have typed: "superblock_typed sb" using assms(2) unfolding assms(3) by (intro superblock_typed_of_bytes) simp
  have "sfs_init e (fs0 f) = init_loop e ?s 0 ?n (slot_pos 0)"
    using sBlock_read_full [OF dev_ok_opened [OF assms(1)], of 11744 f] assms
    by (simp add: sfs_init_open [OF assms(1)] Let_def mount_ok_def slot_pos_def)
  moreover have "init_loop e ?s 0 ?n (slot_pos 0) = None \<longleftrightarrow> 96 < sint (numInodes sb) \<and> length f \<le> slot_offset (?n - 1)"
  proof (cases "sint (numInodes sb) \<le> 0")
    case True
    then show ?thesis by simp
  next
    case False
    then have "geometry_ok sb" using typed assms(4,5) small by (simp add: geometry_ok_def)
    moreover have "typed_fs (inodes_addr e) ?s"
      using typed fcb0_typed by (simp add: typed_fs_def list_all_iff)
    ultimately show ?thesis
      using init_loop_undefined_iff [of e ?s 0 ?n] dev_ok_opened [OF assms(1), of f] False small by auto
  qed
  ultimately show ?thesis using small by simp
qed

definition crowded_image :: "c_int \<Rightarrow> nat \<Rightarrow> byte list" where
  "crowded_image n m = superblock_bytes (superblock0\<lparr>numInodes := n, inodeStartIndex := 3,
     numInodesPerBlock := 4\<rparr>) @ replicate m 0"

lemma crowded_superblock:
  "superblock_of_bytes (take 11744 (crowded_image n m)) =
     superblock0\<lparr>numInodes := n, inodeStartIndex := 3, numInodesPerBlock := 4\<rparr>"
  "length (crowded_image n m) = 11744 + m"
proof -
  have t: "superblock_typed (superblock0\<lparr>numInodes := n, inodeStartIndex := 3, numInodesPerBlock := 4\<rparr>)"
    by (simp add: superblock_typed_def superblock0_def)
  from length_superblock_bytes [OF t] superblock_of_superblock_bytes [OF t] show
    "superblock_of_bytes (take 11744 (crowded_image n m)) =
       superblock0\<lparr>numInodes := n, inodeStartIndex := 3, numInodesPerBlock := 4\<rparr>"
    "length (crowded_image n m) = 11744 + m"
    by (simp_all add: crowded_image_def)
qed

theorem mount_undefined_iff_witness:
  "sfs_init demo_env (fs0 (crowded_image 101 200000)) = None \<and> sfs_init demo_env (fs0 (crowded_image 100 200000)) \<noteq> None \<and>
    sfs_init demo_env (fs0 (crowded_image 97 0)) = None \<and> sfs_init demo_env (fs0 (crowded_image 96 0)) \<noteq> None"
  using mount_undefined_iff [OF demo_mount_ok _ crowded_superblock(1) [symmetric], of 101 200000]
    mount_undefined_iff [OF demo_mount_ok _ crowded_superblock(1) [symmetric], of 100 200000]
    mount_undefined_iff [OF demo_mount_ok _ crowded_superblock(1) [symmetric], of 97 0]
    mount_undefined_iff [OF demo_mount_ok _ crowded_superblock(1) [symmetric], of 96 0]
  by (simp add: crowded_superblock(2) slot_offset_def)

text \<open>C36: Formatting a disk that gives more than 101 inodes, from about 317 million bytes on, is undefined: the
  first flush runs over the array of inodes.\<close>

theorem format_overruns:
  assumes "fresh s" and "316509788 < diskSize s" and "diskSize s - 11744 \<le> 2 ^ 31 - 2 ^ 24"
  shows "formatDisk e s = None"
proof -
  have "\<not> stops (diskSize s - 11744) 101"
    using assms(2) used_after_closed [of 101] by (simp add: stops_def)
  then have "101 < format_count s" by (simp add: format_count_def inode_count_le_iff [symmetric] not_le)
  then show ?thesis using assms by (intro format_overrun) (simp_all add: format_range_def)
qed

theorem format_overruns_witness: "formatDisk demo_env (demo_start\<lparr>diskSize := 400000000\<rparr>) = None"
  using demo_start_fresh by (intro format_overruns) simp_all

end
