(* ===== verification/Lifecycle.thy ===== *)
theory Lifecycle
  imports Remount Sfs_Machine
begin

text \<open>
  The program over its lifetime: sessions, each a process that mounts the disk file, serves
  calls and unmounts, follow one another on the same file. What carries over from one to the
  next is the disk file alone; its invariant is \<open>disk_ok\<close>. All processes have their inodes at
  the same address, without which the entries of directories are lost (\<open>Remount\<close>).
\<close>

section \<open>A disk file that can be mounted\<close>

definition disk_count :: "byte list \<Rightarrow> nat" where
  "disk_count f = nat (sint (numInodes (superblock_of_bytes (take 11744 f))))"

definition disk_ok :: "env \<Rightarrow> byte list \<Rightarrow> bool" where
  "disk_ok e f \<longleftrightarrow> 11744 \<le> length f \<and> geometry_ok (superblock_of_bytes (take 11744 f)) \<and>
     1 < disk_count f \<and> slot_offset (disk_count f - 1) + 840 \<le> length f \<and>
     image_ok e f (disk_count f) \<and> parent_inumber (read_inode e f 0) = - 1"

lemma disk_ok_address: "inodes_addr e = inodes_addr e' \<Longrightarrow> disk_ok e f = disk_ok e' f"
  by (simp add: disk_ok_def image_ok_def read_inode_def)

lemma disk_count_bound: "disk_ok e f \<Longrightarrow> disk_count f \<le> 100"
  by (simp add: disk_ok_def geometry_ok_def disk_count_def) linarith

text \<open>What the calls of a session leave alone: the count, and the slot of the last inode.\<close>

definition kept :: "byte list \<Rightarrow> fs \<Rightarrow> bool" where
  "kept f s \<longleftrightarrow> rooted_inv s \<and> n_inodes s = int (disk_count f) \<and>
     slot_offset (disk_count f - 1) + 840 \<le> length f \<and> length f \<le> length (disk (dev s)) \<and>
     file_read 840 (slot_offset (disk_count f - 1)) (disk (dev s))
       = file_read 840 (slot_offset (disk_count f - 1)) f"

lemma mount_disk:
  assumes "disk_ok e f" and "mount_ok e"
  obtains s where "sfs_init e (fs0 f) = Some s" and "kept f s"
proof -
  let ?sb = "superblock_of_bytes (take 11744 f)"
  let ?s = "loaded e 0 (disk_count f) ((opened e f)\<lparr>sBlock := ?sb\<rparr>)"
  have n: "disk_count f \<le> 100" by (rule disk_count_bound [OF assms(1)])
  have g: "geometry_ok ?sb" and im: "image_ok e f (disk_count f)" and one: "1 < disk_count f"
    using assms(1) by (simp_all add: disk_ok_def)
  have "sfs_init e (fs0 f) = Some ?s"
    using assms(1) by (intro sfs_init_load [OF assms(2)]) (simp_all add: disk_ok_def disk_count_def)
  moreover have "fs_inv ?s" by (rule loaded_inv [OF g im n])
  moreover have d: "dev ?s = dev (opened e f)" by (simp add: loaded_def Let_def)
  moreover have "inodes ?s ! 0 = read_inode e f 0" using one by (simp add: loaded_def Let_def)
  moreover have "0 \<le> diskfile (dev (opened e f))" "fd_open (dev (opened e f))"
    using assms(2) by (simp_all add: opened_def mount_ok_def)
  moreover have "n_inodes ?s = int (disk_count f)"
    using g by (simp add: loaded_def Let_def disk_count_def geometry_ok_def)
  ultimately show ?thesis
    using assms(1) by (intro that [of ?s]) (simp_all add: kept_def rooted_inv_def mounted_inv_def disk_ok_def)
qed

lemma outcome_kept:
  assumes "kept f s" and "env_ok e" and "outcome e s t" and "rooted_inv t"
  shows "kept f t"
proof -
  let ?k = "slot_offset (disk_count f - 1)"
  from assms(3) consider n where "t = s\<lparr>errno := n\<rparr>"
    | u where "t = flushed e u" "fs_inv u" "dev u = dev s" "n_inodes u = n_inodes s"
    by (auto simp: outcome_def)
  then show ?thesis
  proof cases
    case 1
    then show ?thesis using assms(1,4) by (simp add: kept_def)
  next
    case 2
    have "n_inodes u - 1 \<le> int (disk_count f - 1)" using assms(1) 2(4) by (simp add: kept_def)
    moreover have "?k + 840 \<le> length (disk (dev u))" using assms(1) 2(3) by (simp add: kept_def)
    ultimately have "file_read 840 ?k (disk (dev t)) = file_read 840 ?k (disk (dev s))"
      using flushed_beyond [OF 2(2) assms(2), of "disk_count f - 1" ?k 840] 2(1,3) by simp
    then show ?thesis
      using assms(1,4) 2 length_flushed [of u e] by (simp add: kept_def)
  qed
qed

interpretation kept_service: service fs_step fs_run "kept f" call_ok for f
proof unfold_locales
  show "kept f t" if "kept f s" "call_ok c" "fs_step s c a t" for s c a t
  proof -
    obtain e r where c: "c = (e, r)" by (cases c)
    with that(2,3) have a: "sfs_oper e r s = Some (a, t)" and ok: "call_ok (e, r)" and e: "env_ok e"
      by (simp_all add: fs_step_iff call_ok_def)
    have root: "rooted_inv s" using that(1) by (simp add: kept_def)
    show ?thesis
    proof (rule sfs_oper_cases [OF root ok])
      fix a' t' assume "sfs_oper e r s = Some (a', t')" "rooted_inv t'" "\<not> (removes_root r \<or> lists_full e r s)"
      with a root show ?thesis
        by (intro outcome_kept [OF that(1) e] sfs_oper_outcome [OF _ ok _ a]) (simp_all add: rooted_inv_def)
    qed (use a in simp)
  qed
qed (rule sfs_service.run_Nil_iff sfs_service.run_Cons_iff)+

section \<open>One session\<close>

lemma flushed_disk_ok:
  assumes "fs_inv s" and "env_ok e" and "1 < n_inodes s" and "holds_last s"
    and "fcb_ok (read_inode e (disk (dev s)) (nat (n_inodes s) - 1))"
    and "number_ok (parent_inumber (read_inode e (disk (dev s)) (nat (n_inodes s) - 1)))"
    and "parent_inumber (inodes s ! 0) = - 1"
  shows "disk_ok e (disk (dev (flushed e s))) \<and> disk_count (disk (dev (flushed e s))) = nat (n_inodes s)"
proof -
  let ?g = "disk (dev (flushed e s))"
  have "take 11744 ?g = superblock_bytes (sBlock s)"
    using flushed_superblock [OF assms(1,2)] by (simp add: file_read_def)
  then have sb: "superblock_of_bytes (take 11744 ?g) = sBlock s"
    using assms(1) by (simp add: fs_inv_def geometry_ok_def superblock_of_superblock_bytes)
  then have c: "disk_count ?g = nat (n_inodes s)" by (simp add: disk_count_def)
  have "image_ok e ?g (nat (n_inodes s))" by (rule image_ok_flushed [OF assms(1-6)])
  moreover have "read_inode e ?g 0 = inodes s ! 0"
    using read_inode_flushed [OF assms(1,2), of 0] assms(3) by simp
  moreover have "slot_offset (nat (n_inodes s) - 1) + 840 \<le> length ?g"
    using assms(4) length_flushed [of s e] by (simp add: holds_last_def)
  moreover have "11744 \<le> length ?g" using flushed_extent [OF assms(1,2)] by simp
  ultimately show ?thesis
    using assms(1,3,7) by (simp add: disk_ok_def c sb fs_inv_def)
qed

lemma unmount_disk:
  assumes "disk_ok e f" and "kept f s" and "env_ok e"
  shows "sfs_destroy e s = Some (flushed e s)" and "disk_ok e (disk (dev (flushed e s)))"
    and "disk_count (disk (dev (flushed e s))) = disk_count f"
proof -
  let ?n = "disk_count f"
  have inv: "fs_inv s" and m: "mounted_inv s" and root: "parent_inumber (inodes s ! 0) = - 1"
    and n: "n_inodes s = int ?n" and one: "1 < ?n"
    using assms(1,2) by (simp_all add: kept_def rooted_inv_def mounted_inv_def disk_ok_def)
  show "sfs_destroy e s = Some (flushed e s)"
    using flush_run [OF inv assms(3) mounted_dev_ok [OF m assms(3)]] by (simp add: sfs_destroy_def)
  have "holds_last s" using assms(2) by (simp add: holds_last_def n kept_def)
  moreover have "read_inode e (disk (dev s)) (?n - 1) = read_inode e f (?n - 1)"
    using assms(2) by (simp add: read_inode_def kept_def)
  then have "fcb_ok (read_inode e (disk (dev s)) (?n - 1))"
    "number_ok (parent_inumber (read_inode e (disk (dev s)) (?n - 1)))"
    using assms(1) one by (simp_all add: disk_ok_def image_ok_def)
  ultimately have "disk_ok e (disk (dev (flushed e s))) \<and> disk_count (disk (dev (flushed e s))) = ?n"
    using flushed_disk_ok [OF inv assms(3) _ _ _ _ root] one by (simp add: n)
  then show "disk_ok e (disk (dev (flushed e s)))" and "disk_count (disk (dev (flushed e s))) = ?n" by simp_all
qed

type_synonym session = "env \<times> (env \<times> request) list \<times> env"

text \<open>One process: \<open>sfs_init\<close>, the calls, \<open>sfs_destroy\<close>. It starts from zeroed globals.\<close>

definition session :: "session \<Rightarrow> byte list \<Rightarrow> (reply list \<times> byte list) option" where
  "session = (\<lambda>(e, calls, e') f. do {
     s \<leftarrow> sfs_init e (fs0 f);
     (replies, t) \<leftarrow> serve_all calls s;
     u \<leftarrow> sfs_destroy e' t;
     Some (replies, disk (dev u)) })"

fun lifetime :: "session list \<Rightarrow> byte list \<Rightarrow> (reply list list \<times> byte list) option" where
  "lifetime [] f = Some ([], f)"
| "lifetime (x # xs) f = do {
     (replies, g) \<leftarrow> session x f;
     (rest, h) \<leftarrow> lifetime xs g;
     Some (replies # rest, h) }"

definition session_ok :: "env \<Rightarrow> session \<Rightarrow> bool" where
  "session_ok e0 = (\<lambda>(e, calls, e'). mount_ok e \<and> list_all call_ok calls \<and> env_ok e' \<and>
     inodes_addr e = inodes_addr e0 \<and> inodes_addr e' = inodes_addr e0)"

lemma session_keeps_disk:
  assumes "disk_ok e0 f" and "session_ok e0 x" and "session x f = Some (replies, g)"
  shows "disk_ok e0 g \<and> disk_count g = disk_count f"
proof -
  obtain e calls e' where x: "x = (e, calls, e')" by (cases x)
  have ok: "mount_ok e" "list_all call_ok calls" "env_ok e'"
    and addr: "inodes_addr e = inodes_addr e0" "inodes_addr e' = inodes_addr e0"
    using assms(2) by (simp_all add: session_ok_def x)
  have d: "disk_ok e f" "disk_ok e' f"
    using assms(1) disk_ok_address [OF addr(1)] disk_ok_address [OF addr(2)] by simp_all
  obtain s where s: "sfs_init e (fs0 f) = Some s" "kept f s" by (rule mount_disk [OF d(1) ok(1)])
  obtain t u where t: "serve_all calls s = Some (replies, t)" and u: "sfs_destroy e' t = Some u"
    and g: "g = disk (dev u)"
    using assms(3) s(1) by (auto simp: session_def x dest!: option_bind_SomeD)
  have "kept f t" by (rule kept_service.inv_run [OF serve_all_run [OF t] s(2) ok(2)])
  from unmount_disk [OF d(2) this ok(3)] u g disk_ok_address [OF addr(2)] show ?thesis by simp
qed

interpretation disk_service:
  service "\<lambda>f x r g. session x f = Some (r, g)" "\<lambda>f xs rs g. lifetime xs f = Some (rs, g)"
    "\<lambda>g. disk_ok e g \<and> disk_count g = n" "session_ok e" for e n
proof unfold_locales
  show "lifetime [] f = Some (as, g) \<longleftrightarrow> as = [] \<and> g = f" for f as g by auto
  show "lifetime (x # xs) f = Some (as, h) \<longleftrightarrow>
      (\<exists>a bs g. as = a # bs \<and> session x f = Some (a, g) \<and> lifetime xs g = Some (bs, h))" for x xs f as h
    by (auto simp: Option.bind_eq_Some_conv)
qed (use session_keeps_disk in blast)

section \<open>Sessions that do not fail\<close>

text \<open>Calls that are defined in every state: not a listing, and not the removal of the root.\<close>

definition safe_call :: "env \<times> request \<Rightarrow> bool" where
  "safe_call = (\<lambda>(e, r). \<not> removes_root r \<and> (\<forall>p. r \<noteq> Readdir p))"

lemma serve_all_total:
  assumes "rooted_inv s" and "list_all call_ok calls" and "list_all safe_call calls"
  shows "\<exists>replies t. serve_all calls s = Some (replies, t)"
  using assms
proof (induction calls arbitrary: s)
  case Nil
  then show ?case by simp
next
  case (Cons c calls)
  obtain e r where c: "c = (e, r)" by (cases c)
  have "\<not> (removes_root r \<or> lists_full e r s)"
    using Cons.prems(3) by (auto simp: c safe_call_def lists_full_def split: request.split)
  then obtain a t where "sfs_oper e r s = Some (a, t)" "rooted_inv t"
    using sfs_oper_cases [OF Cons.prems(1), of e r] Cons.prems(2) by (auto simp: c)
  with Cons.IH [of t] Cons.prems(2,3) show ?case by (auto simp: c)
qed

definition safe_session :: "session \<Rightarrow> bool" where
  "safe_session = (\<lambda>(e, calls, e'). list_all safe_call calls)"

lemma session_total:
  assumes "disk_ok e0 f" and "session_ok e0 x" and "safe_session x"
  shows "\<exists>replies g. session x f = Some (replies, g)"
proof -
  obtain e calls e' where x: "x = (e, calls, e')" by (cases x)
  have ok: "mount_ok e" "list_all call_ok calls" "env_ok e'"
    and addr: "inodes_addr e = inodes_addr e0" "inodes_addr e' = inodes_addr e0"
    using assms(2) by (simp_all add: session_ok_def x)
  have d: "disk_ok e f" "disk_ok e' f"
    using assms(1) disk_ok_address [OF addr(1)] disk_ok_address [OF addr(2)] by simp_all
  obtain s where s: "sfs_init e (fs0 f) = Some s" "kept f s" by (rule mount_disk [OF d(1) ok(1)])
  have "rooted_inv s" using s(2) by (simp add: kept_def)
  then obtain replies t where t: "serve_all calls s = Some (replies, t)"
    using serve_all_total [OF _ ok(2), of s] assms(3) by (auto simp: safe_session_def x)
  have "kept f t" by (rule kept_service.inv_run [OF serve_all_run [OF t] s(2) ok(2)])
  from unmount_disk(1) [OF d(2) this ok(3)] s(1) t show ?thesis by (simp add: session_def x)
qed

lemma lifetime_total:
  assumes "disk_ok e f" and "list_all (session_ok e) xs" and "list_all safe_session xs"
  shows "\<exists>rs g. lifetime xs f = Some (rs, g)"
  using assms
proof (induction xs arbitrary: f)
  case Nil
  then show ?case by simp
next
  case (Cons x xs)
  have x: "session_ok e x" "list_all (session_ok e) xs" "safe_session x" "list_all safe_session xs"
    using Cons.prems(2,3) by simp_all
  obtain r g where g: "session x f = Some (r, g)" using session_total [OF Cons.prems(1) x(1,3)] by blast
  have "disk_ok e g" using session_keeps_disk [OF Cons.prems(1) x(1) g] by simp
  from Cons.IH [OF this x(2,4)] obtain rs h where "lifetime xs g = Some (rs, h)" by blast
  with g show ?case by simp
qed

end
