(* ===== verification/Io_Errors.thy ===== *)
theory Io_Errors
  imports Sfs_Machine
begin

text \<open>
  Device errors. No caller of \<open>src/src/block.c\<close> among the callbacks looks at what a transfer
  returns: \<open>flushAllInodesTodisk\<close> drops the results of its writes and answers \<open>true\<close>. Here two
  executions of the same calls are related, one on each of two devices that may fail, take
  part of a write, or hold other contents: every reply and all of the memory agree.
\<close>

section \<open>Equal up to the contents of the disk file\<close>

definition same_memory :: "fs \<Rightarrow> fs \<Rightarrow> bool" where
  "same_memory s t \<longleftrightarrow> sBlock s = sBlock t \<and> inodes s = inodes t \<and> diskSize s = diskSize t \<and>
     errno s = errno t \<and> diskfile (dev s) = diskfile (dev t) \<and> fd_open (dev s) = fd_open (dev t)"

text \<open>The same surroundings, but for the device.\<close>

definition same_host :: "env \<Rightarrow> env \<Rightarrow> bool" where
  "same_host e e' \<longleftrightarrow> e' = e\<lparr>io_fail := io_fail e', io_takes := io_takes e'\<rparr>"

definition working_device :: "env \<Rightarrow> env" where
  "working_device e = e\<lparr>io_fail := (\<lambda>off. False), io_takes := (\<lambda>off bs. Some (length bs))\<rparr>"

definition dead_device :: "env \<Rightarrow> env" where
  "dead_device e = e\<lparr>io_fail := (\<lambda>off. True), io_takes := (\<lambda>off bs. None)\<rparr>"

lemma same_host_devices [simp]: "same_host e (working_device e)" "same_host (working_device e) e"
  "same_host e (dead_device e)" "same_host (working_device e) (dead_device e)"
  by (simp_all add: same_host_def working_device_def dead_device_def)

lemma same_host_fields:
  assumes "same_host e e'"
  shows "uid_now e' = uid_now e" "gid_now e' = gid_now e" "time_now e' = time_now e"
    "alloc_ok e' = alloc_ok e" "inodes_addr e' = inodes_addr e" "after_sBlock e' = after_sBlock e"
  using arg_cong [OF iffD1 [OF same_host_def assms], of uid_now] arg_cong [OF iffD1 [OF same_host_def assms], of gid_now]
    arg_cong [OF iffD1 [OF same_host_def assms], of time_now] arg_cong [OF iffD1 [OF same_host_def assms], of alloc_ok]
    arg_cong [OF iffD1 [OF same_host_def assms], of inodes_addr]
    arg_cong [OF iffD1 [OF same_host_def assms], of after_sBlock] by simp_all

lemma same_memory_refl [intro, simp]: "same_memory s s"
  by (simp add: same_memory_def)

lemma same_memory_updates:
  assumes "same_memory s t"
  shows "same_memory (s\<lparr>errno := n\<rparr>) (t\<lparr>errno := n\<rparr>)" "same_memory (s\<lparr>sBlock := sb\<rparr>) (t\<lparr>sBlock := sb\<rparr>)"
    "same_memory (s\<lparr>inodes := fcbs\<rparr>) (t\<lparr>inodes := fcbs\<rparr>)"
  using assms by (simp_all add: same_memory_def)

text \<open>What one execution gives determines what the other gives.\<close>

abbreviation same_result :: "('a \<times> fs) option \<Rightarrow> ('a \<times> fs) option \<Rightarrow> bool" where
  "same_result \<equiv> rel_option (rel_prod (=) same_memory)"

lemma rel_option_bind:
  "rel_option R x y \<Longrightarrow> (\<And>a b. R a b \<Longrightarrow> rel_option Q (f a) (g b)) \<Longrightarrow> rel_option Q (Option.bind x f) (Option.bind y g)"
  by (cases x; cases y) simp_all

lemma rel_option_bind_same:
  "(\<And>a. rel_option Q (f a) (g a)) \<Longrightarrow> rel_option Q (Option.bind x f) (Option.bind x g)"
  by (cases x) simp_all

lemma same_result_bind:
  assumes "same_result x y" and "\<And>a s t. same_memory s t \<Longrightarrow> rel_option Q (f (a, s)) (g (a, t))"
  shows "rel_option Q (Option.bind x f) (Option.bind y g)"
  using assms by (intro rel_option_bind [OF assms(1)]) auto

section \<open>Operations in memory\<close>

lemma same_memory_reads:
  assumes "same_memory s t"
  shows "inodes t = inodes s" "sBlock t = sBlock s" "errno t = errno s" "deref t p = deref s p"
    "inode_address t i = inode_address s i" "findRootOrDieTrying t = findRootOrDieTrying s"
    "getParentFcb t p = getParentFcb s p"
proof -
  show i: "inodes t = inodes s" "sBlock t = sBlock s" "errno t = errno s"
    using assms by (simp_all add: same_memory_def)
  have d: "deref t p = deref s p" for p using i by (cases p) (simp_all add: deref.simps)
  have a: "inode_address t i = inode_address s i" for i using i by (simp add: inode_address_def)
  show "deref t p = deref s p" "inode_address t i = inode_address s i"
    "findRootOrDieTrying t = findRootOrDieTrying s" "getParentFcb t p = getParentFcb s p"
    by (simp_all add: d a findRootOrDieTrying_def getParentFcb_def)
qed

lemma getRelativeParentName_same: "same_host e e' \<Longrightarrow> getRelativeParentName e' = getRelativeParentName e"
  by (rule ext) (simp only: getRelativeParentName_def same_host_fields(4))

lemma find_loop_same:
  assumes "same_memory s t" and "same_host e e'"
  shows "findFileOrDir_loop e' t p r x n = findFileOrDir_loop e s p r x n"
  by (induction n arbitrary: x)
    (simp_all only: findFileOrDir_loop.simps same_memory_reads(1) [OF assms(1)] getRelativeParentName_same [OF assms(2)])

lemma find_same: "same_memory s t \<Longrightarrow> same_host e e' \<Longrightarrow> findFileOrDir e' t p = findFileOrDir e s p"
  by (simp add: findFileOrDir_def find_loop_same same_memory_reads)

lemma create_parent_same: "same_memory s t \<Longrightarrow> same_host e e' \<Longrightarrow> create_parent e' t p q = create_parent e s p q"
  by (simp add: create_parent_def find_same same_memory_reads same_host_fields)

lemma readdir_loop_same:
  assumes "same_memory s t"
  shows "readdir_loop t dc i = readdir_loop s dc i"
proof (induction "length dc - i" arbitrary: i rule: less_induct)
  case less
  have "readdir_loop t dc (Suc i) = readdir_loop s dc (Suc i)" if "arr_get dc (int i) = Some x" for x
    using arr_get_SomeD [OF that] by (intro less) (simp add: diff_less_mono2)
  then show ?case
    by (simp add: readdir_loop.simps [of _ dc i] same_memory_reads [OF assms] split: option.split)
qed

lemma store_same: "same_memory s t \<Longrightarrow> rel_option same_memory (store s p f) (store t p f)"
  by (cases p) (auto simp: store.simps same_memory_reads option.rel_map intro!: option.rel_refl_strong
      intro: same_memory_updates)

lemma add_to_direntry_same:
  "same_memory s t \<Longrightarrow> same_result (add_to_direntry s p c) (add_to_direntry t p c)"
  by (auto simp: add_to_direntry_def same_memory_reads split: prod.splits
      intro!: rel_option_bind_same rel_option_bind [OF store_same])

lemma indexed_remove_same:
  "same_memory s t \<Longrightarrow> same_result (indexed_remove_from_direntry s p i) (indexed_remove_from_direntry t p i)"
  by (auto simp: indexed_remove_from_direntry_def same_memory_reads Let_def
      intro!: rel_option_bind_same rel_option_bind [OF store_same])

lemma remove_loop_same:
  "same_memory s t \<Longrightarrow> same_result (remove_loop s p c i n) (remove_loop t p c i n)"
  by (induction n arbitrary: i)
    (auto simp: same_memory_reads intro!: rel_option_bind_same same_result_bind [OF indexed_remove_same])

lemma remove_from_direntry_same:
  "same_memory s t \<Longrightarrow> same_result (remove_from_direntry s p c) (remove_from_direntry t p c)"
  by (simp add: remove_from_direntry_def remove_loop_same)

lemma fill_inode_same:
  "same_memory s t \<Longrightarrow> same_host e e' \<Longrightarrow>
   rel_option same_memory (fill_inode e s p q m par i) (fill_inode e' t p q m par i)"
  unfolding fill_inode_def
  by (auto simp: same_memory_reads same_host_fields
      intro!: rel_option_bind_same rel_option_bind [OF store_same] same_memory_updates)

section \<open>Writes\<close>

text \<open>Whether a write is defined does not depend on the device, and only its file changes.\<close>

definition same_device :: "device \<Rightarrow> device \<Rightarrow> bool" where
  "same_device d d' \<longleftrightarrow> diskfile d = diskfile d' \<and> fd_open d = fd_open d'"

lemma same_memory_dev: "same_memory s t \<Longrightarrow> same_device d d' \<Longrightarrow> same_memory (s\<lparr>dev := d\<rparr>) (t\<lparr>dev := d'\<rparr>)"
  by (simp add: same_memory_def same_device_def)

lemma same_memory_device: "same_memory s t \<Longrightarrow> same_device (dev s) (dev t)"
  by (simp add: same_memory_def same_device_def)

lemma block_write_padded_same:
  "same_device d d' \<Longrightarrow> rel_option (rel_prod (\<lambda>r r'. True) same_device)
     (block_write_padded e d n buf sz off) (block_write_padded e' d' n buf sz off)"
  by (auto simp: block_write_padded_def same_device_def Let_def split: prod.splits intro!: rel_option_bind_same)

lemma sBlock_write_padded_same:
  "same_device d d' \<Longrightarrow> rel_option (rel_prod (\<lambda>r r'. True) same_device)
     (sBlock_write_padded e d n buf sz) (sBlock_write_padded e' d' n buf sz)"
  by (auto simp: sBlock_write_padded_def same_device_def Let_def split: prod.splits)

lemma flush_loop_same:
  assumes "same_host e e'"
  shows "same_memory s t \<Longrightarrow> rel_option same_memory (flush_loop e s i n pos) (flush_loop e' t i n pos)"
proof (induction n arbitrary: s t i pos)
  case 0
  then show ?case by simp
next
  case (Suc n)
  have "next_slot t pos = next_slot s pos"
    using Suc.prems by (simp add: next_slot_def same_memory_reads)
  moreover have "inodes_memory e' t i = inodes_memory e s i"
    using Suc.prems assms by (simp add: inodes_memory_def same_memory_reads same_host_fields)
  ultimately show ?case
    using Suc.prems
    by (auto simp: same_memory_reads intro!: rel_option_bind_same Suc.IH same_memory_dev
        rel_option_bind [OF block_write_padded_same [OF same_memory_device [OF Suc.prems]]])
qed

lemma flush_same:
  assumes "same_memory s t" and "same_host e e'"
  shows "same_result (flushAllInodesTodisk e False s) (flushAllInodesTodisk e' False t)"
  unfolding flushAllInodesTodisk_def
  by (auto simp: same_memory_reads [OF assms(1)] same_host_fields [OF assms(2)]
      intro!: rel_option_bind_same rel_option_bind [OF flush_loop_same [OF assms(2)]] same_memory_dev assms(1)
        rel_option_bind [OF sBlock_write_padded_same [OF same_memory_device [OF assms(1)]]])

section \<open>The callbacks\<close>

lemma create_at_same:
  assumes "same_memory s t" and "same_host e e'"
  shows "same_result (create_at e s p m i) (create_at e' t p m i)"
  unfolding create_at_def
  by (auto simp: getRelativeParentName_same [OF assms(2)] create_parent_same [OF assms] assms(1)
        same_memory_reads [OF assms(1)] intro!: rel_option_bind_same same_result_bind [OF add_to_direntry_same]
        same_result_bind [OF flush_same [OF _ assms(2)]] rel_option_bind [OF fill_inode_same [OF _ assms(2)]]
      split: option.split)

lemma create_inode_same:
  assumes "same_memory s t" and "same_host e e'"
  shows "same_result (create_inode e s p m) (create_inode e' t p m)"
proof -
  have "same_result (create_inode_loop e s p m i n) (create_inode_loop e' t p m i n)" for i n
    by (induction n arbitrary: i)
      (auto simp: same_memory_reads [OF assms(1)] assms(1) intro!: rel_option_bind_same create_at_same [OF assms])
  then show ?thesis by (simp add: create_inode_def same_memory_reads [OF assms(1)])
qed

lemma remove_inode_same:
  assumes "same_memory s t" and "same_host e e'"
  shows "same_result (remove_inode e s p) (remove_inode e' t p)"
  unfolding remove_inode_def
  by (auto simp: find_same [OF assms] same_memory_reads [OF assms(1)] same_memory_reads assms(1)
      intro!: rel_option_bind_same same_result_bind [OF remove_from_direntry_same [OF assms(1)]]
        same_result_bind [OF flush_same [OF _ assms(2)]] same_memory_updates)

lemma code_reply_same:
  "same_result x y \<Longrightarrow> same_result (code_reply x) (code_reply y)"
  by (cases x; cases y) (auto simp: code_reply_def)

lemma sfs_oper_same:
  assumes "same_memory s t" and "same_host e e'"
  shows "same_result (sfs_oper e r s) (sfs_oper e' r t)"
proof -
  note f = find_same [OF assms] and m = same_memory_reads [OF assms(1)] and h = same_host_fields [OF assms(2)]
  have cr: "same_result (sfs_create e s p md) (sfs_create e' t p md)" for p md
    unfolding sfs_create_def
    by (auto simp: same_memory_reads intro!: same_result_bind [OF create_inode_same [OF assms]])
  have mk: "same_result (sfs_mkdir e s p md) (sfs_mkdir e' t p md)" for p md
    unfolding sfs_mkdir_def
    by (auto simp: assms(1) intro!: same_result_bind [OF create_inode_same [OF assms]])
  have rm: "same_result (sfs_unlink e s p) (sfs_unlink e' t p)" "same_result (sfs_rmdir e s p) (sfs_rmdir e' t p)" for p
    unfolding sfs_unlink_def sfs_rmdir_def
    by (auto simp: same_memory_updates Let_def intro!: same_result_bind [OF remove_inode_same [OF assms]])
  show ?thesis
    by (cases r)
      (auto simp: cr mk rm f m h assms(1) same_memory_updates [OF assms(1)] readdir_loop_same [OF assms(1)] Let_def
        sfs_getattr_def sfs_open_def sfs_release_def sfs_opendir_def sfs_releasedir_def sfs_read_def
        sfs_write_def sfs_readdir_def option.rel_map
        split: option.split intro!: code_reply_same rel_option_bind_same)
qed

text \<open>Runs: the calls of one are those of the other, on other devices.\<close>

definition same_calls :: "(env \<times> request) list \<Rightarrow> (env \<times> request) list \<Rightarrow> bool" where
  "same_calls = list_all2 (\<lambda>(e, r) (e', r'). same_host e e' \<and> r = r')"

lemma same_calls_map [simp]:
  "(\<And>e. same_host e (f e)) \<Longrightarrow> same_calls cs (map (map_prod f id) cs)"
  by (simp add: same_calls_def list_all2_map2 case_prod_unfold list.rel_refl)

lemma serve_all_same:
  "same_memory s t \<Longrightarrow> same_calls cs cs' \<Longrightarrow> same_result (serve_all cs s) (serve_all cs' t)"
proof (induction cs arbitrary: s t cs')
  case Nil
  then show ?case by (simp add: same_calls_def)
next
  case (Cons c cs)
  obtain e r where c: "c = (e, r)" by (cases c)
  obtain e' ys where ys: "cs' = (e', r) # ys" "same_host e e'" "same_calls cs ys"
    using Cons.prems(2) by (auto simp: same_calls_def c list_all2_Cons1)
  show ?case
    unfolding c ys(1) serve_all.simps
    by (auto intro!: same_result_bind [OF sfs_oper_same [OF Cons.prems(1) ys(2)]] same_result_bind [OF Cons.IH [OF _ ys(3)]])
qed

section \<open>The invariant on any device\<close>

text \<open>Admissible calls, whatever the device does and however long the paths are: \<open>call_ok\<close> without \<open>io_ok\<close>
  and without \<open>path_fits\<close>.\<close>

definition host_ok :: "env \<Rightarrow> bool" where
  "host_ok e \<longleftrightarrow> addr_ok (inodes_addr e) \<and> 544 \<le> length (after_sBlock e)"

definition call_fits :: "env \<times> request \<Rightarrow> bool" where
  "call_fits = (\<lambda>(e, r). host_ok e \<and> cstring (request_path r))"

lemma env_ok_working: "host_ok e \<Longrightarrow> env_ok (working_device e)"
  by (auto simp: host_ok_def env_ok_def io_ok_def working_device_def)

lemma call_fits_working:
  "call_fits (e, r) \<Longrightarrow> creates r \<longrightarrow> path_fits e (request_path r) \<Longrightarrow> call_ok (working_device e, r)"
proof -
  have "path_fits (working_device e) = path_fits e"
    using getRelativeParentName_same [of e "working_device e"] by (intro ext) (simp add: path_fits_def)
  then show "call_fits (e, r) \<Longrightarrow> creates r \<longrightarrow> path_fits e (request_path r) \<Longrightarrow> call_ok (working_device e, r)"
    by (simp add: call_fits_def call_ok_def env_ok_working)
qed

lemma call_ok_fits: "call_ok c \<Longrightarrow> call_fits c"
  by (cases c) (simp add: call_ok_def call_fits_def env_ok_def host_ok_def)

lemma rooted_same: "same_memory s t \<Longrightarrow> rooted_inv t = rooted_inv s"
  by (simp add: same_memory_def rooted_inv_def mounted_inv_def fs_inv_def)

lemma lists_full_working: "lists_full (working_device e) r s = lists_full e r s"
proof -
  have "findFileOrDir (working_device e) s p = findFileOrDir e s p" for p by (rule find_same) simp_all
  then show ?thesis by (simp add: lists_full_def full_directory_def split: request.split)
qed

lemma any_device_cases:
  assumes "rooted_inv s" and "call_fits (e, r)"
  obtains (None) "sfs_oper e r s = None" and "removes_root r \<or> lists_full e r s \<or> overruns_name e r s"
  | (Some) a t where "sfs_oper e r s = Some (a, t)" and "rooted_inv t"
      and "\<not> (removes_root r \<or> lists_full e r s \<or> overruns_name e r s)"
proof (cases "creates r \<longrightarrow> path_fits e (request_path r)")
  case True
  then have no: "\<not> overruns_name e r s" using overruns_name_unfit by blast
  note same = sfs_oper_same [OF same_memory_refl [of s] same_host_devices(2) [of e], of r]
  show thesis
  proof (rule sfs_oper_cases [OF assms(1) call_fits_working [OF assms(2) True]])
    show thesis if "sfs_oper (working_device e) r s = None" "removes_root r \<or> lists_full (working_device e) r s"
      using that(2) same unfolding that(1) by (intro None) (auto simp: lists_full_working)
    show thesis if "sfs_oper (working_device e) r s = Some (a, t)" "rooted_inv t"
        "\<not> (removes_root r \<or> lists_full (working_device e) r s)" for a t
      using that(2,3) same no unfolding that(1) by (auto simp: option_rel_Some1 rooted_same lists_full_working intro: Some)
  qed
next
  case False
  have "fs_inv s" using assms(1) by (simp add: rooted_inv_def mounted_inv_def)
  from sfs_oper_unfit [OF this, of r e] False assms(2)
  have c: "if overruns_name e r s then sfs_oper e r s = None else \<exists>a. sfs_oper e r s = Some (a, s)"
    by (simp add: call_fits_def)
  have "\<not> removes_root r" "\<not> lists_full e r s"
    using False by (cases r; simp add: removes_root_def lists_full_def)+
  with c assms(1) show thesis by (auto split: if_splits intro: None Some)
qed

interpretation any_device: service fs_step fs_run rooted_inv call_fits
proof unfold_locales
  show "rooted_inv t" if "rooted_inv s" "call_fits c" "fs_step s c a t" for s c a t
  proof -
    obtain e r where c: "c = (e, r)" by (cases c)
    with that(3) have a: "sfs_oper e r s = Some (a, t)" by (simp add: fs_step_iff)
    show ?thesis by (rule any_device_cases [OF that(1), of e r]) (use that(2) c a in auto)
  qed
qed (rule sfs_service.run_Nil_iff sfs_service.run_Cons_iff)+

section \<open>A device that takes nothing\<close>

lemma store_dev: "store s p f = Some t \<Longrightarrow> dev t = dev s"
  by (auto simp: store_Some_iff)

lemma add_to_direntry_dev: "add_to_direntry s p c = Some (b, t) \<Longrightarrow> dev t = dev s"
  by (auto simp: add_to_direntry_def Let_def dest!: option_bind_SomeD store_dev split: if_splits prod.splits)

lemma indexed_remove_dev: "indexed_remove_from_direntry s p i = Some (b, t) \<Longrightarrow> dev t = dev s"
  by (auto simp: indexed_remove_from_direntry_def Let_def dest!: option_bind_SomeD store_dev split: if_splits)

lemma remove_loop_dev: "remove_loop s p c i n = Some (b, t) \<Longrightarrow> dev t = dev s"
  by (induction n arbitrary: i) (auto dest!: option_bind_SomeD indexed_remove_dev split: if_splits)

lemma remove_from_direntry_dev: "remove_from_direntry s p c = Some (b, t) \<Longrightarrow> dev t = dev s"
  by (auto simp: remove_from_direntry_def dest!: remove_loop_dev split: if_splits)

lemma fill_inode_dev: "fill_inode e s p q m par i = Some t \<Longrightarrow> dev t = dev s"
  by (auto simp: fill_inode_def dest!: option_bind_SomeD store_dev)

lemma pwrite_dead: "pwrite (dead_device e) fd f bs off = (- 1, f)"
  by (simp add: pwrite_def dead_device_def)

lemma block_write_padded_dead: "block_write_padded (dead_device e) d n buf sz off = Some (r, d') \<Longrightarrow> d' = d"
  by (auto simp: block_write_padded_def pwrite_dead dest!: option_bind_SomeD split: if_splits)

lemma sBlock_write_padded_dead: "sBlock_write_padded (dead_device e) d n buf sz = Some (r, d') \<Longrightarrow> d' = d"
  by (auto simp: sBlock_write_padded_def pwrite_dead split: if_splits)

lemma flush_loop_dead: "flush_loop (dead_device e) s i n pos = Some t \<Longrightarrow> dev t = dev s"
proof (induction n arbitrary: s i pos)
  case (Suc n)
  then obtain d where "dev s = d" and "flush_loop (dead_device e) (s\<lparr>dev := d\<rparr>) (Suc i) n (next_slot s pos) = Some t"
    by (auto dest!: option_bind_SomeD block_write_padded_dead)
  then show ?case using Suc.IH by fastforce
qed simp

lemma flush_dead: "flushAllInodesTodisk (dead_device e) False s = Some (b, t) \<Longrightarrow> dev t = dev s"
  by (auto simp: flushAllInodesTodisk_def dest!: option_bind_SomeD flush_loop_dead sBlock_write_padded_dead)

lemma create_inode_dead: "create_inode (dead_device e) s p m = Some (r, t) \<Longrightarrow> dev t = dev s"
proof -
  have at: "create_at (dead_device e) s p m i = Some (r, t) \<Longrightarrow> dev t = dev s" for i r
    by (auto simp: create_at_def dest!: option_bind_SomeD add_to_direntry_dev fill_inode_dev flush_dead
        split: if_splits option.splits)
  have "create_inode_loop (dead_device e) s p m i n = Some (r, t) \<Longrightarrow> dev t = dev s" for i n
    by (induction n arbitrary: i) (auto dest!: option_bind_SomeD at split: if_splits)
  then show "create_inode (dead_device e) s p m = Some (r, t) \<Longrightarrow> dev t = dev s"
    by (simp add: create_inode_def)
qed

lemma remove_inode_dead: "remove_inode (dead_device e) s p = Some (r, t) \<Longrightarrow> dev t = dev s"
  by (auto simp: remove_inode_def dest!: option_bind_SomeD remove_from_direntry_dev flush_dead split: if_splits)

lemma sfs_oper_dead: "sfs_oper (dead_device e) r s = Some (a, t) \<Longrightarrow> dev t = dev s"
  by (cases r) (auto simp: callback_defs code_reply_def Let_def dest!: option_bind_SomeD
      create_inode_dead remove_inode_dead split: if_splits option.splits)

lemma serve_all_dead:
  "serve_all (map (map_prod dead_device id) cs) s = Some (replies, t) \<Longrightarrow> dev t = dev s"
  by (induction cs arbitrary: s replies) (auto dest!: option_bind_SomeD sfs_oper_dead)

text \<open>Mounting a file that is not empty only reads it.\<close>

lemma init_loop_dev: "init_loop e s i n pos = Some t \<Longrightarrow> dev t = dev s"
proof (induction n arbitrary: i s pos)
  case (Suc n)
  have IH: "dev t = dev s" if "init_loop e s' (Suc i) n pos' = Some t" and "dev s' = dev s" for s' pos'
    using Suc.IH [OF that(1)] that(2) by simp
  show ?case
    using Suc.prems by (auto simp: Let_def dest!: option_bind_SomeD IH split: if_splits)
qed simp

lemma sBlock_read_nonempty:
  assumes "sBlock_read e d k buf sz = Some (r, buf')" and "0 < sz" and "disk d \<noteq> []"
  shows "r \<noteq> 0"
proof -
  obtain r' bs where p: "pread e (live_fd d) (disk d) sz 0 = (r', bs)" by (cases "pread e (live_fd d) (disk d) sz 0")
  then have "r' \<noteq> 0" using assms(2,3) by (auto simp: pread_def file_read_def Let_def min_def split: if_splits)
  moreover have "r = r'" using assms(1) p by (auto simp: sBlock_read_def Let_def dest!: option_bind_SomeD split: if_splits)
  ultimately show ?thesis by simp
qed

lemma sfs_init_disk:
  assumes "sfs_init e (fs0 f) = Some s" and "f \<noteq> []"
  shows "disk (dev s) = f"
proof -
  obtain d r buf where d: "disk_open e (device0 f) = Some d"
    and rd: "sBlock_read e d 0 (stack_buf e) sizeof_superblock = Some (r, buf)"
    using assms(1) by (auto simp: sfs_init_def fs0_def Let_def dest!: option_bind_SomeD)
  have f: "disk d = f" using d by (auto simp: disk_open_def device0_def Let_def split: if_splits)
  have "r \<noteq> 0" using sBlock_read_nonempty [OF rd] assms(2) f by simp
  then have "dev s = d"
    using assms(1) d rd by (auto simp: sfs_init_def fs0_def Let_def dest: init_loop_dev split: if_splits)
  then show ?thesis using f by simp
qed

end
