(* ===== verification/Lifecycle_Properties.thy ===== *)
theory Lifecycle_Properties
  imports Lifecycle Io_Errors Example_State
begin

text \<open>The program over any number of sessions on one disk file.\<close>

text \<open>C2: Over any number of sessions, each mounting the disk file, serving calls and unmounting it, the disk
  file stays one that can be mounted, with the same number of inodes, as long as the processes
  have their inodes at the same address.\<close>

theorem lifetime_keeps_disk:
  assumes "disk_ok e f" and "list_all (session_ok e) xs" and "lifetime xs f = Some (rs, g)"
  shows "disk_ok e g \<and> disk_count g = disk_count f \<and> length rs = length xs"
  using disk_service.inv_run [OF assms(3) _ assms(2), of "disk_count f"] assms(1)
    disk_service.run_replies [OF assms(3)] by simp

lemma demo_disk: "disk_ok demo_env (disk (dev (flushed demo_env demo_file_fs)))"
proof -
  have "parent_inumber (inodes demo_file_fs ! 0) = - 1"
    using demo_rooted create_outcome [OF _ demo_env_ok demo_path_fits demo_create] outcome_root
    by (simp add: rooted_inv_def)
  then show ?thesis
    using flushed_disk_ok [OF demo_file_inv demo_env_ok _ demo_file_holds_last] demo_file_last_ok demo_file_n
    by simp
qed

definition demo_sessions :: "session list" where
  "demo_sessions = [(demo_env, [(demo_env, Create ''/a'' 33188), (demo_env, Unlink ''/a'')], demo_env),
     (demo_env, [(demo_env, Open ''/a''), (demo_env, Mkdir ''/a'' 493)], demo_env)]"

lemma demo_sessions_ok: "list_all (session_ok demo_env) demo_sessions" "list_all safe_session demo_sessions"
  using demo_mount_ok demo_env_ok demo_path_fits
  by (simp_all add: demo_sessions_def session_ok_def safe_session_def safe_call_def call_ok_def
      removes_root_def cstring_def)

lemma demo_lifetime: "\<exists>rs g. lifetime demo_sessions (disk (dev (flushed demo_env demo_file_fs))) = Some (rs, g)"
  by (rule lifetime_total [OF demo_disk demo_sessions_ok])

theorem lifetime_keeps_disk_witness:
  "\<exists>rs g. lifetime demo_sessions (disk (dev (flushed demo_env demo_file_fs))) = Some (rs, g) \<and>
    disk_ok demo_env g \<and> length rs = 2"
proof -
  from demo_lifetime obtain rs g where
    r: "lifetime demo_sessions (disk (dev (flushed demo_env demo_file_fs))) = Some (rs, g)" by blast
  from r lifetime_keeps_disk [OF demo_disk demo_sessions_ok(1) r] show ?thesis
    by (auto simp: demo_sessions_def)
qed

text \<open>C3: Mounting such a disk file, every call but a listing or the removal of the root (the paths to be
  created having names of at most 255 characters), and unmounting are
  defined and come to an end, in every session of a sequence.\<close>

theorem lifetime_returns:
  assumes "disk_ok e f" and "list_all (session_ok e) xs" and "list_all safe_session xs"
  shows "\<exists>rs g. lifetime xs f = Some (rs, g) \<and> list_all2 (\<lambda>r (e1, calls, e2). length r = length calls) rs xs"
proof -
  obtain rs g where r: "lifetime xs f = Some (rs, g)" using lifetime_total [OF assms] by blast
  have "list_all2 (\<lambda>r (e1, calls, e2). length r = length calls) rs xs" if "lifetime xs f = Some (rs, g)" for f rs g
    using that
  proof (induction xs arbitrary: f rs)
    case Nil
    then show ?case by simp
  next
    case (Cons x xs)
    obtain e1 calls e2 where x: "x = (e1, calls, e2)" by (cases x)
    from Cons.prems obtain a f' bs where s: "session x f = Some (a, f')" "lifetime xs f' = Some (bs, g)" "rs = a # bs"
      by (auto dest!: option_bind_SomeD)
    then obtain s t where "serve_all calls s = Some (a, t)"
      by (auto simp: x session_def dest!: option_bind_SomeD)
    then have "length a = length calls" by (rule sfs_service.run_replies [OF serve_all_run])
    with Cons.IH [OF s(2)] show ?case by (simp add: s(3) x)
  qed
  with r show ?thesis by blast
qed

theorem lifetime_returns_witness:
  "\<exists>rs g. lifetime demo_sessions (disk (dev (flushed demo_env demo_file_fs))) = Some (rs, g)"
  using lifetime_returns [OF demo_disk demo_sessions_ok] by blast



end
