(* ===== verification/Interleaving.thy ===== *)
theory Interleaving
  imports Io_Errors
begin

text \<open>
  Creation, removal and search by several threads. Without the option \<open>-s\<close> FUSE calls the callbacks
  from a pool of threads, and \<open>src/src/DateiSteuerBlock.c\<close> takes no lock. Here \<open>create_inode\<close>,
  \<open>remove_inode\<close> and \<open>findFileOrDir\<close> are cut into steps at the places where they turn from one part
  of the shared state to the next, and shown to compute, one thread alone, what the functions of
  \<open>Inode_Ops\<close> and \<open>Lookup\<close> compute. \<open>Scheduler\<close> lets several of them run.
\<close>

section \<open>The steps of create\_inode\<close>

text \<open>
  Where a creation is: testing the bitmap at an index, with a free index but no parent yet, about
  to link the inode into its parent, to fill it in and mark it used, to write back, returned.
\<close>

datatype create_pc =
    Scan nat
  | Find_Parent nat
  | Link nat string fcb_ptr
  | Fill nat string fcb_ptr
  | Write_Back nat
  | Created fcb_ptr

text \<open>\<open>None\<close> is an undefined step, or no step: \<open>Created\<close> has none. What is returned is the address
  \<open>&inodes[i]\<close> that was formed for the link.\<close>

fun create_step :: "env \<Rightarrow> string \<Rightarrow> c_int \<Rightarrow> create_pc \<Rightarrow> fs \<Rightarrow> (create_pc \<times> fs) option" where
  "create_step e path mode (Scan i) s =
     (if int i < n_inodes s then do {
        b \<leftarrow> arr_get (ibmap (sBlock s)) (int i);
        Some (if b \<noteq> 1 then Find_Parent i else Scan (Suc i), s) }
      else Some (Created Null, s))"
| "create_step e path mode (Find_Parent i) s =
     (case getRelativeParentName e (Some path) of
        None \<Rightarrow> Some (Created Null, s)
      | Some parentName \<Rightarrow> do {
          parent \<leftarrow> create_parent e s path parentName;
          Some (if parent = Null then Created Null else Link i parentName parent, s) })"
| "create_step e path mode (Link i parentName parent) s = do {
     child \<leftarrow> inode_address s (int i);
     (added, s') \<leftarrow> add_to_direntry s parent child;
     Some (if \<not> added then Created Null else Fill i parentName parent, s') }"
| "create_step e path mode (Fill i parentName parent) s = do {
     s' \<leftarrow> fill_inode e s path parentName mode parent i;
     Some (Write_Back i, s') }"
| "create_step e path mode (Write_Back i) s = do {
     (ok, s') \<leftarrow> flushAllInodesTodisk e False s;
     Some (Created (Inode i), s') }"
| "create_step e path mode (Created r) s = None"

section \<open>The steps of remove\_inode\<close>

datatype remove_pc =
    Find_Path
  | Find_Directory fcb_ptr
  | Take_Out fcb_ptr fcb_ptr
  | Clear_Bit fcb_ptr
  | Write_Removal
  | Removed bool

fun remove_step :: "env \<Rightarrow> string \<Rightarrow> remove_pc \<Rightarrow> fs \<Rightarrow> (remove_pc \<times> fs) option" where
  "remove_step e path Find_Path s = do {
     f \<leftarrow> findFileOrDir e s path;
     Some (if f \<noteq> Null then Find_Directory f else Removed False, s) }"
| "remove_step e path (Find_Directory f) s = do {
     p \<leftarrow> getParentFcb s f;
     Some (if p \<noteq> Null then Take_Out p f else Removed False, s) }"
| "remove_step e path (Take_Out p f) s = do {
     (removed, s') \<leftarrow> remove_from_direntry s p f;
     Some (if removed then Clear_Bit f else Removed False, s') }"
| "remove_step e path (Clear_Bit f) s = do {
     g \<leftarrow> deref s f;
     ib \<leftarrow> arr_set (ibmap (sBlock s)) (sint (inumber g)) 0;
     Some (Write_Removal, s\<lparr>sBlock := (sBlock s)\<lparr>ibmap := ib\<rparr>\<rparr>) }"
| "remove_step e path Write_Removal s = do {
     (ok, s') \<leftarrow> flushAllInodesTodisk e False s;
     Some (Removed True, s') }"
| "remove_step e path (Removed b) s = None"

section \<open>The steps of findFileOrDir\<close>

text \<open>
  The search a callback such as \<open>sfs_open\<close> makes: at the comparison of the name at an index, or,
  the name being equal, of the name of the parent. The bound of the loop is read in each round.
\<close>

datatype find_pc =
    Enter_Search
  | Compare_Name nat
  | Compare_Parent nat
  | Found fcb_ptr

fun find_step :: "env \<Rightarrow> string \<Rightarrow> find_pc \<Rightarrow> fs \<Rightarrow> (find_pc \<times> fs) option" where
  "find_step e path Enter_Search s =
     (if path = ''/'' then do {
        root \<leftarrow> findRootOrDieTrying s;
        Some (Found root, s) }
      else Some (Compare_Name 0, s))"
| "find_step e path (Compare_Name x) s =
     (if int x < n_inodes s then do {
        currFCB \<leftarrow> arr_get (inodes s) (int x);
        same \<leftarrow> strcmp_eq (fileName currFCB) (relativeName path);
        Some (if same then Compare_Parent x else Compare_Name (Suc x), s) }
      else Some (Found Null, s))"
| "find_step e path (Compare_Parent x) s =
     (case getRelativeParentName e (Some path) of
        None \<Rightarrow> Some (Found (Inode x), s)
      | Some parentName \<Rightarrow> do {
          currFCB \<leftarrow> arr_get (inodes s) (int x);
          sameParent \<leftarrow> strcmp_eq (parentDir currFCB) parentName;
          Some (if sameParent then Found (Inode x) else Compare_Name (Suc x), s) })"
| "find_step e path (Found r) s = None"

section \<open>The interface: steps that finish a computation\<close>

text \<open>
  What is asked: a function \<open>rest\<close> that says what remains to be computed at each point, which no
  step changes, and a measure that every step lowers. What follows: exactly the results of \<open>rest\<close>
  are reached by steps.
\<close>

locale small_steps =
  fixes step :: "'pc \<Rightarrow> 's \<Rightarrow> ('pc \<times> 's) option"
    and rest :: "'pc \<Rightarrow> 's \<Rightarrow> ('r \<times> 's) option"
    and returned :: "'r \<Rightarrow> 'pc"
    and left :: "'pc \<Rightarrow> 's \<Rightarrow> nat"
  assumes step_rest: "step pc s = Some (pc', s') \<Longrightarrow> rest pc s = rest pc' s'"
    and step_stuck: "step pc s = None \<Longrightarrow> (\<exists>r. pc = returned r) \<or> rest pc s = None"
    and step_less: "step pc s = Some (pc', s') \<Longrightarrow> left pc' s' < left pc s"
    and rest_returned: "rest (returned r) s = Some (r, s)"
begin

abbreviation leads_to :: "'pc \<times> 's \<Rightarrow> 'pc \<times> 's \<Rightarrow> bool" where
  "leads_to \<equiv> (\<lambda>x y. step (fst x) (snd x) = Some y)\<^sup>*\<^sup>*"

lemma leads_to_step: "step pc s = Some (pc', s') \<Longrightarrow> leads_to (pc, s) (pc', s')"
  by (intro r_into_rtranclp) simp

lemma leads_to_trans: "leads_to x y \<Longrightarrow> leads_to y z \<Longrightarrow> leads_to x z"
  by (rule rtranclp_trans)

lemma leads_to_rest: "leads_to x y \<Longrightarrow> rest (fst x) (snd x) = rest (fst y) (snd y)"
  by (induction rule: rtranclp_induct) (auto dest: step_rest)

lemma rest_leads_to: "rest pc s = Some (r, t) \<Longrightarrow> leads_to (pc, s) (returned r, t)"
proof (induction "left pc s" arbitrary: pc s rule: less_induct)
  case less
  show ?case
  proof (cases "step pc s")
    case None
    from step_stuck [OF this] less.prems obtain r' where "pc = returned r'" by auto
    then show ?thesis using less.prems rest_returned [of r' s] by simp
  next
    case (Some y)
    then have st: "step pc s = Some (fst y, snd y)" by simp
    from less.hyps [OF step_less [OF st]] less.prems step_rest [OF st]
    have "leads_to (fst y, snd y) (returned r, t)" by simp
    with Some show ?thesis by (intro converse_rtranclp_into_rtranclp [of _ "(pc, s)" y]) simp_all
  qed
qed

lemma rest_iff_leads_to: "rest pc s = Some (r, t) \<longleftrightarrow> leads_to (pc, s) (returned r, t)"
  using rest_leads_to leads_to_rest [of "(pc, s)" "(returned r, t)"] rest_returned by auto

end

section \<open>A thread alone\<close>

text \<open>What remains to be done from a point, as the functions of \<open>Inode_Ops\<close> have it.\<close>

definition finish_creation :: "env \<Rightarrow> nat \<Rightarrow> fs \<Rightarrow> (fcb_ptr \<times> fs) option" where
  "finish_creation e i s = do {
     (ok, s') \<leftarrow> flushAllInodesTodisk e False s;
     Some (Inode i, s') }"

fun create_rest :: "env \<Rightarrow> string \<Rightarrow> c_int \<Rightarrow> create_pc \<Rightarrow> fs \<Rightarrow> (fcb_ptr \<times> fs) option" where
  "create_rest e path mode (Scan i) s = create_inode_loop e s path mode i (nat (n_inodes s - int i))"
| "create_rest e path mode (Find_Parent i) s = create_at e s path mode i"
| "create_rest e path mode (Link i q parent) s = do {
     child \<leftarrow> inode_address s (int i);
     (added, s1) \<leftarrow> add_to_direntry s parent child;
     (if \<not> added then Some (Null, s1)
      else do {
        s2 \<leftarrow> fill_inode e s1 path q mode parent i;
        finish_creation e i s2 }) }"
| "create_rest e path mode (Fill i q parent) s = do {
     s2 \<leftarrow> fill_inode e s path q mode parent i;
     finish_creation e i s2 }"
| "create_rest e path mode (Write_Back i) s = finish_creation e i s"
| "create_rest e path mode (Created r) s = Some (r, s)"

definition finish_removal :: "env \<Rightarrow> fs \<Rightarrow> (bool \<times> fs) option" where
  "finish_removal e s = do {
     (ok, s') \<leftarrow> flushAllInodesTodisk e False s;
     Some (True, s') }"

definition clear_and_finish :: "env \<Rightarrow> fcb_ptr \<Rightarrow> fs \<Rightarrow> (bool \<times> fs) option" where
  "clear_and_finish e f s = do {
     g \<leftarrow> deref s f;
     ib \<leftarrow> arr_set (ibmap (sBlock s)) (sint (inumber g)) 0;
     finish_removal e (s\<lparr>sBlock := (sBlock s)\<lparr>ibmap := ib\<rparr>\<rparr>) }"

definition take_out_and_finish :: "env \<Rightarrow> fcb_ptr \<Rightarrow> fcb_ptr \<Rightarrow> fs \<Rightarrow> (bool \<times> fs) option" where
  "take_out_and_finish e p f s = do {
     (removed, s1) \<leftarrow> remove_from_direntry s p f;
     (if removed then clear_and_finish e f s1 else Some (False, s1)) }"

fun remove_rest :: "env \<Rightarrow> string \<Rightarrow> remove_pc \<Rightarrow> fs \<Rightarrow> (bool \<times> fs) option" where
  "remove_rest e path Find_Path s = remove_inode e s path"
| "remove_rest e path (Find_Directory f) s = do {
     p \<leftarrow> getParentFcb s f;
     (if p \<noteq> Null then take_out_and_finish e p f s else Some (False, s)) }"
| "remove_rest e path (Take_Out p f) s = take_out_and_finish e p f s"
| "remove_rest e path (Clear_Bit f) s = clear_and_finish e f s"
| "remove_rest e path Write_Removal s = finish_removal e s"
| "remove_rest e path (Removed b) s = Some (b, s)"

definition go_on_searching :: "env \<Rightarrow> string \<Rightarrow> nat \<Rightarrow> fs \<Rightarrow> (fcb_ptr \<times> fs) option" where
  "go_on_searching e path x s = do {
     r \<leftarrow> findFileOrDir_loop e s path (relativeName path) x (nat (n_inodes s - int x));
     Some (r, s) }"

fun find_rest :: "env \<Rightarrow> string \<Rightarrow> find_pc \<Rightarrow> fs \<Rightarrow> (fcb_ptr \<times> fs) option" where
  "find_rest e path Enter_Search s = do { r \<leftarrow> findFileOrDir e s path; Some (r, s) }"
| "find_rest e path (Compare_Name x) s = go_on_searching e path x s"
| "find_rest e path (Compare_Parent x) s =
     (case getRelativeParentName e (Some path) of
        None \<Rightarrow> Some (Inode x, s)
      | Some parentName \<Rightarrow> do {
          currFCB \<leftarrow> arr_get (inodes s) (int x);
          sameParent \<leftarrow> strcmp_eq (parentDir currFCB) parentName;
          (if sameParent then Some (Inode x, s) else go_on_searching e path (Suc x) s) })"
| "find_rest e path (Found r) s = Some (r, s)"

text \<open>A step does not change what remains, and where there is none nothing is left to do or nothing is
  defined.\<close>

lemma inode_address_nat: "inode_address s (int i) = Some p \<Longrightarrow> p = Inode i"
  by (auto simp: inode_address_def split: if_splits)

lemma create_at_rest:
  "create_at e s path mode i = (case getRelativeParentName e (Some path) of
     None \<Rightarrow> Some (Null, s)
   | Some q \<Rightarrow> do {
       parent \<leftarrow> create_parent e s path q;
       (if parent = Null then Some (Null, s) else create_rest e path mode (Link i q parent) s) })"
proof -
  have "(do { child \<leftarrow> inode_address s (int i); h child child }) = (do { child \<leftarrow> inode_address s (int i); h child (Inode i) })"
    for h :: "fcb_ptr \<Rightarrow> fcb_ptr \<Rightarrow> (fcb_ptr \<times> fs) option"
    by (cases "inode_address s (int i)") (auto dest: inode_address_nat)
  from this [of "\<lambda>child r. do { (added, s1) \<leftarrow> add_to_direntry s parent child; (if \<not> added then Some (Null, s1)
      else do { s2 \<leftarrow> fill_inode e s1 path q mode parent i; (ok, s3) \<leftarrow> flushAllInodesTodisk e False s2; Some (r, s3) }) }"
      for parent q]
  show ?thesis by (simp add: create_at_def finish_creation_def [abs_def] cong: option.case_cong if_cong)
qed

lemma create_step_rest:
  "create_step e path mode pc s = Some (pc', s') \<Longrightarrow> create_rest e path mode pc s = create_rest e path mode pc' s'"
proof (induction e path mode pc s rule: create_step.induct)
  case (1 e path mode i s)
  show ?case
  proof (cases "int i < n_inodes s")
    case True
    then have "nat (n_inodes s - int i) = Suc (nat (n_inodes s - int (Suc i)))" by simp
    then show ?thesis using 1 True by (auto dest!: option_bind_SomeD simp del: of_nat_Suc)
  qed (use 1 in auto)
next
  case (2 e path mode i s)
  then show ?case
    by (auto simp: create_at_rest simp del: create_rest.simps(3) dest!: option_bind_SomeD split: option.splits if_splits)
qed (auto simp: finish_creation_def dest!: option_bind_SomeD)

lemma create_step_stuck:
  "create_step e path mode pc s = None \<Longrightarrow> (\<exists>r. pc = Created r) \<or> create_rest e path mode pc s = None"
proof (induction e path mode pc s rule: create_step.induct)
  case (1 e path mode i s)
  then have "int i < n_inodes s" and "arr_get (ibmap (sBlock s)) (int i) = None"
    by (auto split: if_splits simp: bind_eq_None_conv)
  moreover then have "nat (n_inodes s - int i) = Suc (nat (n_inodes s - int (Suc i)))" by simp
  ultimately show ?case by simp
next
  case (2 e path mode i s)
  then show ?case
    by (auto simp: create_at_rest bind_eq_None_conv simp del: create_rest.simps(3) split: option.splits)
qed (auto simp: finish_creation_def split: Option.bind_splits prod.splits if_splits)

lemma remove_inode_rest:
  "remove_inode e s path = do {
     f \<leftarrow> findFileOrDir e s path;
     (if f \<noteq> Null then remove_rest e path (Find_Directory f) s else Some (False, s)) }"
  by (simp add: remove_inode_def finish_removal_def [abs_def] clear_and_finish_def [abs_def]
      take_out_and_finish_def [abs_def] cong: if_cong)

lemma remove_step_rest:
  "remove_step e path pc s = Some (pc', s') \<Longrightarrow> remove_rest e path pc s = remove_rest e path pc' s'"
  by (induction e path pc s rule: remove_step.induct)
    (auto simp: remove_inode_rest finish_removal_def clear_and_finish_def take_out_and_finish_def
      simp del: remove_rest.simps(2) dest!: option_bind_SomeD split: if_splits,
     auto simp: take_out_and_finish_def)

lemma remove_step_stuck:
  "remove_step e path pc s = None \<Longrightarrow> (\<exists>b. pc = Removed b) \<or> remove_rest e path pc s = None"
  by (induction e path pc s rule: remove_step.induct)
    (auto simp: remove_inode_rest finish_removal_def clear_and_finish_def take_out_and_finish_def
      split: Option.bind_splits prod.splits if_splits)

text \<open>A round of the loop, as the rest that follows the comparison of the name.\<close>

lemma go_on_searching_round:
  "go_on_searching e path x s = (if int x < n_inodes s then do {
     f \<leftarrow> arr_get (inodes s) (int x);
     same \<leftarrow> strcmp_eq (fileName f) (relativeName path);
     (if same then find_rest e path (Compare_Parent x) s else go_on_searching e path (Suc x) s) }
   else Some (Null, s))"
proof (cases "int x < n_inodes s")
  case True
  then have "nat (n_inodes s - int x) = Suc (nat (n_inodes s - int (Suc x)))" by simp
  with True show ?thesis
    by (auto simp: go_on_searching_def simp del: of_nat_Suc split: Option.bind_splits option.splits)
qed (simp add: go_on_searching_def)

lemma find_step_rest: "find_step e path pc s = Some (pc', s') \<Longrightarrow> find_rest e path pc s = find_rest e path pc' s'"
proof (induction e path pc s rule: find_step.induct)
  case (1 e path s)
  then show ?case
    by (auto simp: findFileOrDir_def go_on_searching_def dest!: option_bind_SomeD split: if_splits)
next
  case (2 e path x s)
  then show ?case
    by (auto simp: go_on_searching_round [of e path x] simp del: find_rest.simps(3) dest!: option_bind_SomeD split: if_splits)
qed (auto dest!: option_bind_SomeD split: option.splits)

lemma find_step_stuck: "find_step e path pc s = None \<Longrightarrow> (\<exists>r. pc = Found r) \<or> find_rest e path pc s = None"
proof (induction e path pc s rule: find_step.induct)
  case (1 e path s)
  then show ?case by (auto simp: findFileOrDir_def split: Option.bind_splits if_splits)
next
  case (2 e path x s)
  then show ?case
    by (auto simp: go_on_searching_round [of e path x] simp del: find_rest.simps(3) split: Option.bind_splits if_splits)
qed (auto split: Option.bind_splits option.splits)

text \<open>How many steps a thread can still make.\<close>

fun create_left :: "create_pc \<Rightarrow> int \<Rightarrow> nat" where
  "create_left (Scan i) n = 5 + nat (n - int i)"
| "create_left (Find_Parent i) n = 4"
| "create_left (Link i q r) n = 3"
| "create_left (Fill i q r) n = 2"
| "create_left (Write_Back i) n = 1"
| "create_left (Created r) n = 0"

fun remove_left :: "remove_pc \<Rightarrow> nat" where
  "remove_left Find_Path = 5"
| "remove_left (Find_Directory f) = 4"
| "remove_left (Take_Out p f) = 3"
| "remove_left (Clear_Bit f) = 2"
| "remove_left Write_Removal = 1"
| "remove_left (Removed b) = 0"

fun find_left :: "find_pc \<Rightarrow> int \<Rightarrow> nat" where
  "find_left Enter_Search n = 3 * nat n + 2"
| "find_left (Compare_Name x) n = 3 * nat (n - int x) + 1"
| "find_left (Compare_Parent x) n = 3 * nat (n - int (Suc x)) + 2"
| "find_left (Found r) n = 0"

lemma create_step_less:
  "create_step e path mode pc s = Some (pc', s') \<Longrightarrow> create_left pc' (n_inodes s') < create_left pc (n_inodes s)"
  by (induction e path mode pc s rule: create_step.induct)
    (auto dest!: option_bind_SomeD split: if_splits option.splits)

lemma remove_step_less: "remove_step e path pc s = Some (pc', s') \<Longrightarrow> remove_left pc' < remove_left pc"
  by (induction e path pc s rule: remove_step.induct) (auto dest!: option_bind_SomeD split: if_splits)

lemma find_step_less: "find_step e path pc s = Some (pc', s') \<Longrightarrow> find_left pc' (n_inodes s') < find_left pc (n_inodes s)"
  by (induction e path pc s rule: find_step.induct) (auto dest!: option_bind_SomeD split: if_splits option.splits)

interpretation creation: small_steps "create_step e p m" "create_rest e p m" Created
    "\<lambda>pc s. create_left pc (n_inodes s)" for e p m
  by unfold_locales (auto intro: create_step_rest create_step_less dest: create_step_stuck)

interpretation removal: small_steps "remove_step e p" "remove_rest e p" Removed "\<lambda>pc s. remove_left pc" for e p
  by unfold_locales (auto intro: remove_step_rest remove_step_less dest: remove_step_stuck)

interpretation search: small_steps "find_step e p" "find_rest e p" Found "\<lambda>pc s. find_left pc (n_inodes s)" for e p
  by unfold_locales (auto intro: find_step_rest find_step_less dest: find_step_stuck)

end
