(* ===== verification/Scheduler.thy ===== *)
theory Scheduler
  imports Interleaving
begin

text \<open>
  Threads and schedules: the steps of \<open>Interleaving\<close> made by any number of threads on one shared
  state, a schedule saying which of them steps next. What one step writes is visible to the next.
  Every schedule keeps the invariant, the steps that are undefined are known exactly, and a schedule
  of paths that fit can be brought to an end; but two creations can be given the same inode.
\<close>

section \<open>Threads and schedules\<close>

datatype thread = Creator env string c_int create_pc | Remover env string remove_pc | Searcher env string find_pc

fun thread_step :: "thread \<Rightarrow> fs \<Rightarrow> (thread \<times> fs) option" where
  "thread_step (Creator e p m pc) s = map_option (\<lambda>(pc', s'). (Creator e p m pc', s')) (create_step e p m pc s)"
| "thread_step (Remover e p pc) s = map_option (\<lambda>(pc', s'). (Remover e p pc', s')) (remove_step e p pc s)"
| "thread_step (Searcher e p pc) s = map_option (\<lambda>(pc', s'). (Searcher e p pc', s')) (find_step e p pc s)"

fun returned :: "thread \<Rightarrow> bool" where
  "returned (Creator e p m pc) = (case pc of Created r \<Rightarrow> True | _ \<Rightarrow> False)"
| "returned (Remover e p pc) = (case pc of Removed b \<Rightarrow> True | _ \<Rightarrow> False)"
| "returned (Searcher e p pc) = (case pc of Found r \<Rightarrow> True | _ \<Rightarrow> False)"

fun thread_left :: "int \<Rightarrow> thread \<Rightarrow> nat" where
  "thread_left n (Creator e p m pc) = create_left pc n"
| "thread_left n (Remover e p pc) = remove_left pc"
| "thread_left n (Searcher e p pc) = find_left pc n"

text \<open>The threads and what they share. A schedule is the list of the threads that step, its trace what
  each of them has come to.\<close>

type_synonym config = "thread list \<times> fs"

inductive sched_step :: "config \<Rightarrow> nat \<Rightarrow> thread \<Rightarrow> config \<Rightarrow> bool" where
  stepped: "j < length ts \<Longrightarrow> thread_step (ts ! j) s = Some (x, s') \<Longrightarrow> sched_step (ts, s) j x (ts[j := x], s')"

inductive_cases sched_stepE: "sched_step (ts, s) j x c"

inductive schedule :: "config \<Rightarrow> nat list \<Rightarrow> thread list \<Rightarrow> config \<Rightarrow> bool" where
  sched_Nil: "schedule c [] [] c"
| sched_Cons: "sched_step c j x d \<Longrightarrow> schedule d js xs c' \<Longrightarrow> schedule c (j # js) (x # xs) c'"

inductive_cases schedule_NilE: "schedule c [] xs d"
inductive_cases schedule_ConsE: "schedule c (j # js) xs d"

lemma schedule_Nil_iff: "schedule c [] xs d \<longleftrightarrow> xs = [] \<and> d = c"
  by (auto elim: schedule_NilE intro: sched_Nil)

lemma schedule_Cons_iff: "schedule c (j # js) xs d \<longleftrightarrow> (\<exists>x ys c'. xs = x # ys \<and> sched_step c j x c' \<and> schedule c' js ys d)"
  by (auto elim!: schedule_ConsE intro: sched_Cons)

section \<open>The invariant under every schedule\<close>

text \<open>What a thread relies on between its steps: the numbers it carries stay in range.\<close>

fun create_pc_ok :: "env \<Rightarrow> string \<Rightarrow> create_pc \<Rightarrow> bool" where
  "create_pc_ok e p (Scan i) \<longleftrightarrow> 0 < i"
| "create_pc_ok e p (Find_Parent i) \<longleftrightarrow> 0 < i \<and> i < 100"
| "create_pc_ok e p (Link i q r) \<longleftrightarrow> 0 < i \<and> i < 100 \<and> getRelativeParentName e (Some p) = Some q \<and> (\<exists>k<100. r = Inode k)"
| "create_pc_ok e p (Fill i q r) \<longleftrightarrow> 0 < i \<and> i < 100 \<and> getRelativeParentName e (Some p) = Some q \<and> (\<exists>k<100. r = Inode k)"
| "create_pc_ok e p (Write_Back i) \<longleftrightarrow> i < 100"
| "create_pc_ok e p (Created r) \<longleftrightarrow> True"

fun remove_pc_ok :: "string \<Rightarrow> remove_pc \<Rightarrow> bool" where
  "remove_pc_ok p Find_Path \<longleftrightarrow> True"
| "remove_pc_ok p (Find_Directory f) \<longleftrightarrow> (\<exists>c<100. f = Inode c \<and> (c = 0 \<longleftrightarrow> p = ''/''))"
| "remove_pc_ok p (Take_Out d f) \<longleftrightarrow> (\<exists>k<100. d = Inode k) \<and> (\<exists>c<100. f = Inode c)"
| "remove_pc_ok p (Clear_Bit f) \<longleftrightarrow> (\<exists>c<100. f = Inode c)"
| "remove_pc_ok p Write_Removal \<longleftrightarrow> True"
| "remove_pc_ok p (Removed b) \<longleftrightarrow> True"

text \<open>A search is left at the comparison of a parent's name only at an index of the array.\<close>

fun find_pc_ok :: "find_pc \<Rightarrow> bool" where
  "find_pc_ok (Compare_Parent x) \<longleftrightarrow> x < 100"
| "find_pc_ok Enter_Search \<longleftrightarrow> True"
| "find_pc_ok (Compare_Name x) \<longleftrightarrow> True"
| "find_pc_ok (Found r) \<longleftrightarrow> True"

fun thread_ok :: "thread \<Rightarrow> bool" where
  "thread_ok (Creator e p m pc) \<longleftrightarrow> host_ok e \<and> cstring p \<and> create_pc_ok e p pc"
| "thread_ok (Remover e p pc) \<longleftrightarrow> host_ok e \<and> cstring p \<and> remove_pc_ok p pc"
| "thread_ok (Searcher e p pc) \<longleftrightarrow> cstring p \<and> find_pc_ok pc"

text \<open>The two steps that are undefined: the copy of a name that is longer than the array it goes to, and
  the search for the parent of the root. A thread with paths that fit and are not the root never comes
  to them.\<close>

fun doomed :: "thread \<Rightarrow> bool" where
  "doomed (Creator e p m pc) =
     (case pc of Fill i q r \<Rightarrow> 256 \<le> length (relativeName p) \<or> 256 \<le> length q | _ \<Rightarrow> False)"
| "doomed (Remover e p pc) = (case pc of Find_Directory f \<Rightarrow> p = ''/'' | _ \<Rightarrow> False)"
| "doomed (Searcher e p pc) = False"

fun thread_fits :: "thread \<Rightarrow> bool" where
  "thread_fits (Creator e p m pc) = path_fits e p"
| "thread_fits (Remover e p pc) = (p \<noteq> ''/'')"
| "thread_fits (Searcher e p pc) = True"

lemma thread_fits_not_doomed: "thread_ok x \<Longrightarrow> thread_fits x \<Longrightarrow> \<not> doomed x"
  by (cases x) (auto simp: path_fits_def split: create_pc.splits remove_pc.splits)

lemma thread_fits_step: "thread_step x s = Some (y, t) \<Longrightarrow> thread_fits y = thread_fits x"
  by (cases x) auto

text \<open>The flush on any device.\<close>

lemma flush_any_device:
  assumes "mounted_inv s" and "host_ok e"
  shows "\<exists>t. flushAllInodesTodisk e False s = Some (True, t) \<and> same_memory s t"
proof -
  let ?e = "working_device e"
  have e: "env_ok ?e" by (rule env_ok_working [OF assms(2)])
  have "flushAllInodesTodisk ?e False s = Some (True, flushed ?e s)"
    using assms(1) by (intro flush_run [OF _ e] mounted_dev_ok [OF _ e]) (simp_all add: mounted_inv_def)
  moreover have "same_memory s (flushed ?e s)" by (simp add: same_memory_def)
  ultimately show ?thesis
    using flush_same [OF same_memory_refl same_host_devices(2) [of e], of s]
    by (auto simp: option_rel_Some1 same_memory_def)
qed

text \<open>What a step does: it is defined until the thread has returned, keeps the invariant and the
  number of inodes, and leaves the thread well-formed.\<close>

definition kept_by :: "fs \<Rightarrow> fs \<Rightarrow> bool" where
  "kept_by s t \<longleftrightarrow> rooted_inv t \<and> n_inodes t = n_inodes s"

lemma rooted_ranges:
  assumes "rooted_inv s"
  shows "fs_inv s" "length (inodes s) = 100" "length (ibmap (sBlock s)) = 5859" "n_inodes s \<le> 100"
  using assms fs_inv_n [of s] fs_inv_length [of s]
  by (simp_all add: rooted_inv_def mounted_inv_def) (simp add: fs_inv_def geometry_ok_def superblock_typed_def)

lemma kept_by_refl: "rooted_inv s \<Longrightarrow> kept_by s s"
  by (simp add: kept_by_def)

lemma kept_by_flush:
  assumes "rooted_inv s" and "host_ok e"
  shows "\<exists>t. flushAllInodesTodisk e False s = Some (True, t) \<and> kept_by s t"
proof -
  have "mounted_inv s" using assms(1) by (simp add: rooted_inv_def)
  from flush_any_device [OF this assms(2)] obtain t where
    t: "flushAllInodesTodisk e False s = Some (True, t)" "same_memory s t" by blast
  then have "kept_by s t" using rooted_same [OF t(2)] assms(1) by (simp add: kept_by_def same_memory_def)
  with t(1) show ?thesis by blast
qed

lemma kept_by_inodes:
  assumes "rooted_inv s" and "fs_inv (s\<lparr>inodes := fcbs\<rparr>)" and "parent_inumber (fcbs ! 0) = parent_inumber (inodes s ! 0)"
  shows "kept_by s (s\<lparr>inodes := fcbs\<rparr>)"
  using assms by (simp add: kept_by_def rooted_inv_def mounted_inv_def)

lemma create_step_kept:
  assumes "rooted_inv s" and "host_ok e" and "cstring p" and "create_pc_ok e p pc" and "\<forall>r. pc \<noteq> Created r"
    and "\<forall>i q r. pc = Fill i q r \<longrightarrow> length (relativeName p) < 256 \<and> length q < 256"
  shows "\<exists>pc' t. create_step e p m pc s = Some (pc', t) \<and> create_pc_ok e p pc' \<and> kept_by s t"
proof -
  note rng = rooted_ranges [OF assms(1)]
  note p = assms(3)
  show ?thesis
  proof (cases pc)
    case (Scan i)
    then show ?thesis using rng assms(1,4) by (auto simp: kept_by_refl)
  next
    case (Find_Parent i)
    show ?thesis
    proof (cases "getRelativeParentName e (Some p)")
      case None
      then show ?thesis using Find_Parent assms(1) by (simp add: kept_by_refl)
    next
      case (Some q)
      obtain r where r: "create_parent e s p q = Some r" using create_parent_total [OF rng(1) p] by blast
      from create_parent_inv [OF rng(1) p r] Some r show ?thesis
        using Find_Parent assms(1,4) by (auto simp: kept_by_refl)
    qed
  next
    case (Link i q r)
    then obtain k where k: "k < 100" "r = Inode k" and i: "0 < i" "i < 100" using assms(4) by auto
    have "kept_by s (s\<lparr>inodes := link_inodes (inodes s) k i\<rparr>)"
      by (rule kept_by_inodes [OF assms(1) link_inodes_ok [OF rng(1) k(1) i(2)]]) (simp add: link_inodes_names)
    then show ?thesis
      using fs_inv_add [OF rng(1) k(1) i(2)] Link assms(4) k i rng(2) by (auto simp: link_inodes_def)
  next
    case (Fill i q r)
    then obtain k where k: "k < 100" "r = Inode k" and i: "0 < i" "i < 100"
      and q: "getRelativeParentName e (Some p) = Some q" using assms(4) by auto
    let ?f = "new_fcb e (inodes s ! i) (relativeName p) q m (parent_number (inodes s) k i) i"
    let ?s1 = "s\<lparr>inodes := (inodes s)[i := ?f]\<rparr>"
    have f: "fcb_ok (inodes s ! i)" by (rule fs_inv_fcb [OF rng(1) i(2)])
    have l: "length (relativeName p) < 256" "length q < 256" "cstring q"
      using assms(6) Fill getRelativeParentName_cstring [OF p q] by simp_all
    have "fcb_ok ?f" using f cstring_relativeName [OF p] l i(2) by (intro new_fcb_ok)
    moreover have "number_ok (parent_number (inodes s) k i)"
      using fs_inv_fcb [OF rng(1) k(1)] number_ok_of_nat [OF i(2)] by (simp add: parent_number_def fcb_ok_def)
    ultimately have inv: "fs_inv ?s1"
      using i(1) by (intro fs_inv_update [OF rng(1)]) (simp_all add: new_fcb_def)
    have "kept_by s (?s1\<lparr>sBlock := (sBlock ?s1)\<lparr>ibmap := (ibmap (sBlock ?s1))[i := 1]\<rparr>\<rparr>)"
      using fs_inv_bitmap [OF inv, of i 1] assms(1) i(1) by (simp add: kept_by_def rooted_inv_def mounted_inv_def)
    moreover have "fill_inode e s p q m (Inode k) i
        = Some (?s1\<lparr>sBlock := (sBlock ?s1)\<lparr>ibmap := (ibmap (sBlock ?s1))[i := 1]\<rparr>\<rparr>)"
      using fill_inode_run [of i s k p q e m] f rng i(2) k(1) l(1,2) by (simp add: fcb_ok_def fcb_sized_def)
    ultimately show ?thesis using Fill i k by (intro exI [of _ "Write_Back i"]) simp
  next
    case (Write_Back i)
    with kept_by_flush [OF assms(1,2)] show ?thesis by fastforce
  qed (use assms(5) in simp)
qed

lemma remove_step_kept:
  assumes "rooted_inv s" and "host_ok e" and "cstring p" and "remove_pc_ok p pc" and "\<forall>b. pc \<noteq> Removed b"
    and "\<forall>f. pc = Find_Directory f \<longrightarrow> p \<noteq> ''/''"
  shows "\<exists>pc' t. remove_step e p pc s = Some (pc', t) \<and> remove_pc_ok p pc' \<and> kept_by s t"
proof -
  note rng = rooted_ranges [OF assms(1)]
  show ?thesis
  proof (cases pc)
    case Find_Path
    show ?thesis
    proof (rule findFileOrDir_cases [OF rng(1) assms(3), of e])
      fix c assume c: "findFileOrDir e s p = Some (Inode c)"
      have "c < 100" using c by (cases rule: findFileOrDir_cases [OF rng(1) assms(3), of e]) auto
      moreover have "c = 0 \<longleftrightarrow> p = ''/''"
        using c findFileOrDir_nonroot [OF rng(1) assms(3) _ c] findRoot_inv [OF rng(1)]
        by (auto simp: findFileOrDir_def split: if_splits)
      ultimately show ?thesis using c Find_Path assms(1) by (auto simp: kept_by_refl)
    qed (use Find_Path assms(1) in \<open>simp add: kept_by_refl\<close>)
  next
    case (Find_Directory f)
    then obtain c where c: "0 < c" "c < 100" "f = Inode c" using assms(4,6) by auto
    then have "number_ok (parent_inumber (inodes s ! c))" using fs_inv_parent [OF rng(1)] by simp
    then show ?thesis
      using getParentFcb_inv [OF rng(1) c(1,2)] Find_Directory c assms(1)
      by (auto simp: kept_by_refl number_ok_def)
  next
    case (Take_Out q f)
    then obtain k c where k: "k < 100" "q = Inode k" and c: "c < 100" "f = Inode c" using assms(4) by auto
    obtain t where t: "remove_from_direntry s q f = Some (True, t)" "fs_inv t"
      using fs_inv_remove [OF rng(1) k(1) c(1)] k c by auto
    have "parent_inumber (inodes t ! 0) = parent_inumber (inodes s ! 0) \<and> dev t = dev s \<and> sBlock t = sBlock s"
      using t(1) remove_from_direntry_spec [OF rng(1) k(1) c(1)] k c rng(2)
      by (cases "k = 0") (auto split: option.splits)
    then have "kept_by s t" using t(2) assms(1) by (simp add: kept_by_def rooted_inv_def mounted_inv_def)
    then show ?thesis using t(1) Take_Out c by auto
  next
    case (Clear_Bit f)
    then obtain c where c: "c < 100" "f = Inode c" using assms(4) by auto
    have n: "number_ok (inumber (inodes s ! c))" using fs_inv_fcb [OF rng(1) c(1)] by (simp add: fcb_ok_def)
    let ?t = "s\<lparr>sBlock := (sBlock s)\<lparr>ibmap := (ibmap (sBlock s))[nat (sint (inumber (inodes s ! c))) := 0]\<rparr>\<rparr>"
    have "remove_step e p pc s = Some (Write_Removal, ?t)"
      using Clear_Bit c n rng(2,3) by (simp add: arr_set_def number_ok_def)
    moreover have "kept_by s ?t"
      using fs_inv_bitmap [OF rng(1)] assms(1) by (simp add: kept_by_def rooted_inv_def mounted_inv_def)
    ultimately show ?thesis by auto
  next
    case Write_Removal
    with kept_by_flush [OF assms(1,2)] show ?thesis by fastforce
  qed (use assms(5) in simp)
qed

lemma find_step_kept:
  assumes "rooted_inv s" and "cstring p" and "find_pc_ok pc" and "\<forall>r. pc \<noteq> Found r"
  shows "\<exists>pc' t. find_step e p pc s = Some (pc', t) \<and> find_pc_ok pc' \<and> kept_by s t"
proof -
  note rng = rooted_ranges [OF assms(1)]
  show ?thesis
  proof (cases pc)
    case Enter_Search
    then show ?thesis using findRoot_inv [OF rng(1)] assms(1) by (simp add: kept_by_refl)
  next
    case (Compare_Name x)
    show ?thesis
    proof (cases "int x < n_inodes s")
      case True
      then have x: "x < 100" using rng(4) by simp
      note strcmp_name [OF fs_inv_fcb [OF rng(1) x] cstring_relativeName [OF assms(2)]]
      then show ?thesis using Compare_Name True x rng(2) assms(1) by (simp add: kept_by_refl)
    qed (use Compare_Name assms(1) in \<open>simp add: kept_by_refl\<close>)
  next
    case (Compare_Parent x)
    then have x: "x < 100" using assms(3) by simp
    show ?thesis
    proof (cases "getRelativeParentName e (Some p)")
      case None
      then show ?thesis using Compare_Parent assms(1) by (simp add: kept_by_refl)
    next
      case (Some q)
      note strcmp_parent [OF fs_inv_fcb [OF rng(1) x] getRelativeParentName_cstring [OF assms(2) Some]]
      then show ?thesis using Compare_Parent Some x rng(2) assms(1) by (simp add: kept_by_refl)
    qed
  qed (use assms(4) in simp)
qed

text \<open>Configurations: each thread is well-formed over a shared state that is.\<close>

definition config_ok :: "int \<Rightarrow> config \<Rightarrow> bool" where
  "config_ok n = (\<lambda>(ts, s). rooted_inv s \<and> n_inodes s = n \<and> list_all thread_ok ts)"

lemma thread_step_kept:
  assumes "rooted_inv s" and "thread_ok x" and "\<not> returned x" and "\<not> doomed x"
  shows "\<exists>y t. thread_step x s = Some (y, t) \<and> thread_ok y \<and> kept_by s t"
proof (cases x)
  case (Creator e p m pc)
  then show ?thesis
    using create_step_kept [OF assms(1), of e p pc m] assms(2-4) by (fastforce split: create_pc.splits)
next
  case (Remover e p pc)
  then show ?thesis
    using remove_step_kept [OF assms(1), of e p pc] assms(2-4) by (fastforce split: remove_pc.splits)
next
  case (Searcher e p pc)
  then show ?thesis
    using find_step_kept [OF assms(1), of p pc e] assms(2,3) by (fastforce split: find_pc.splits)
qed

lemma thread_step_returned: "returned x \<Longrightarrow> thread_step x s = None"
  by (cases x) (auto split: create_pc.splits remove_pc.splits find_pc.splits)

lemma thread_step_doomed:
  assumes "rooted_inv s" and "thread_ok x" and "doomed x"
  shows "thread_step x s = None"
proof (cases x)
  case (Creator e p m pc)
  then show ?thesis
    using fill_too_long [OF rooted_ranges(1) [OF assms(1)]] assms(2,3) by (auto split: create_pc.splits)
next
  case (Remover e p pc)
  have "parent_inumber (inodes s ! 0) = - 1" using assms(1) by (simp add: rooted_inv_def)
  from getParentFcb_root_undefined [OF rooted_ranges(1) [OF assms(1)] this] Remover show ?thesis
    using assms(2,3) by (auto split: remove_pc.splits)
qed (use assms(3) in simp)

lemma thread_step_undefined_iff:
  "rooted_inv s \<Longrightarrow> thread_ok x \<Longrightarrow> thread_step x s = None \<longleftrightarrow> returned x \<or> doomed x"
  using thread_step_kept [of s x] thread_step_doomed [of s x] thread_step_returned [of x s] by fastforce

lemma thread_step_less:
  "thread_step x s = Some (y, t) \<Longrightarrow> n_inodes t = n_inodes s \<Longrightarrow> thread_left (n_inodes s) y < thread_left (n_inodes s) x"
  by (cases x) (auto dest: create_step_less remove_step_less find_step_less)

lemma sched_step_cases:
  assumes "config_ok n (ts, s)" and "sched_step (ts, s) j x c"
  obtains t where "j < length ts" and "c = (ts[j := x], t)" and "config_ok n (ts[j := x], t)"
    and "thread_left n x < thread_left n (ts ! j)"
proof -
  obtain t where j: "j < length ts" and st: "thread_step (ts ! j) s = Some (x, t)" and c: "c = (ts[j := x], t)"
    using assms(2) by (auto elim: sched_stepE)
  have ok: "rooted_inv s" "n_inodes s = n" "thread_ok (ts ! j)"
    using assms(1) j by (simp_all add: config_ok_def list_all_length)
  have "\<not> returned (ts ! j)" "\<not> doomed (ts ! j)"
    using st thread_step_undefined_iff [OF ok(1,3)] by auto
  from thread_step_kept [OF ok(1,3) this] st have x: "thread_ok x" and k: "kept_by s t" by auto
  then have "config_ok n (ts[j := x], t)"
    using assms(1) by (simp add: config_ok_def kept_by_def list_all_update)
  moreover have "thread_left n x < thread_left n (ts ! j)"
    using thread_step_less [OF st] k ok(2) by (simp add: kept_by_def)
  ultimately show ?thesis using that j c by blast
qed

interpretation scheduler: service sched_step schedule "config_ok n" "\<lambda>j. True" for n
proof unfold_locales
  show "config_ok n d" if "config_ok n c" "sched_step c j x d" for c j x d
    using that sched_step_cases [of n "fst c" "snd c" j x d] by (cases c) auto
qed (rule schedule_Nil_iff schedule_Cons_iff)+

text \<open>Every schedule ends: each step lowers the sum of the steps that are left.\<close>

definition work_left :: "int \<Rightarrow> thread list \<Rightarrow> nat" where
  "work_left n ts = sum_list (map (thread_left n) ts)"

lemma work_left_update:
  "j < length ts \<Longrightarrow> thread_left n x < thread_left n (ts ! j) \<Longrightarrow> work_left n (ts[j := x]) < work_left n ts"
  unfolding work_left_def
  by (induction ts arbitrary: j) (auto split: nat.splits simp: nth_Cons)

lemma schedule_length:
  "schedule c js xs d \<Longrightarrow> config_ok n c \<Longrightarrow> length js + work_left n (fst d) \<le> work_left n (fst c)"
proof (induction rule: schedule.induct)
  case (sched_Nil c)
  then show ?case by simp
next
  case (sched_Cons c j x d js xs c')
  obtain ts s where c: "c = (ts, s)" by (cases c)
  from sched_step_cases [of n ts s j x d] sched_Cons.hyps(1) sched_Cons.prems c
  obtain t where d: "j < length ts" "d = (ts[j := x], t)" "config_ok n d"
    and l: "thread_left n x < thread_left n (ts ! j)" by metis
  have "work_left n (fst d) < work_left n (fst c)" using work_left_update [OF d(1) l] by (simp add: c d(2))
  with sched_Cons.IH [OF d(3)] show ?case by simp
qed

lemma work_left_creators:
  "work_left n (map (\<lambda>(e, p, m). Creator e p m (Scan 1)) cs) = (5 + nat (n - 1)) * length cs"
  by (induction cs) (auto simp: work_left_def)

text \<open>A schedule of threads with paths that fit can be continued until every thread has returned.\<close>

lemma sched_step_fits: "sched_step c j x d \<Longrightarrow> list_all thread_fits (fst c) \<Longrightarrow> list_all thread_fits (fst d)"
  by (cases c) (auto elim!: sched_stepE simp: list_all_length nth_list_update dest: thread_fits_step)

lemma schedule_fits: "schedule c js xs d \<Longrightarrow> list_all thread_fits (fst c) \<Longrightarrow> list_all thread_fits (fst d)"
  by (induction rule: schedule.induct) (auto dest: sched_step_fits)

lemma schedule_progress:
  assumes "config_ok n (ts, s)" and "list_all thread_fits ts" and "\<not> list_all returned ts"
  shows "\<exists>j x d. sched_step (ts, s) j x d"
proof -
  obtain j where j: "j < length ts" "\<not> returned (ts ! j)" using assms(3) by (auto simp: list_all_length)
  have ok: "rooted_inv s" "thread_ok (ts ! j)" using assms(1) j by (simp_all add: config_ok_def list_all_length)
  have "\<not> doomed (ts ! j)" using thread_fits_not_doomed [OF ok(2)] assms(2) j(1) by (simp add: list_all_length)
  from thread_step_kept [OF ok j(2) this] show ?thesis using stepped [OF j(1)] by blast
qed

lemma schedule_completes:
  "config_ok n (ts, s) \<Longrightarrow> list_all thread_fits ts \<Longrightarrow>
   \<exists>ks xs us t. schedule (ts, s) ks xs (us, t) \<and> list_all returned us"
proof (induction "work_left n ts" arbitrary: ts s rule: less_induct)
  case less
  show ?case
  proof (cases "list_all returned ts")
    case True
    then show ?thesis using sched_Nil by blast
  next
    case False
    from schedule_progress [OF less.prems this] obtain j x d where st: "sched_step (ts, s) j x d" by blast
    from sched_step_cases [OF less.prems(1) st] obtain t where
      d: "j < length ts" "d = (ts[j := x], t)" "config_ok n (ts[j := x], t)" "thread_left n x < thread_left n (ts ! j)" .
    have "list_all thread_fits (ts[j := x])" using sched_step_fits [OF st] less.prems(2) d(2) by simp
    from less.hyps [OF work_left_update [OF d(1,4)] d(3) this] st d(2) show ?thesis by (blast intro: sched_Cons)
  qed
qed

section \<open>One thread, several steps\<close>

lemma schedule_append:
  "schedule c js xs d \<Longrightarrow> schedule d ks ys c' \<Longrightarrow> schedule c (js @ ks) (xs @ ys) c'"
  using scheduler.run_append [of c js ks "xs @ ys" c'] by blast

lemma thread_schedule:
  assumes "(\<lambda>x y. step (fst x) (snd x) = Some y)\<^sup>*\<^sup>* x y" and "j < length ts" and "ts ! j = thread (fst x)"
    and "\<And>pc s. thread_step (thread pc) s = map_option (\<lambda>(pc', s'). (thread pc', s')) (step pc s)"
  shows "\<exists>js xs. schedule (ts, snd x) js xs (ts[j := thread (fst y)], snd y)"
  using assms(1-3)
proof (induction arbitrary: ts rule: converse_rtranclp_induct)
  case base
  then have "ts[j := thread (fst y)] = ts" by (metis list_update_id)
  then show ?case using sched_Nil by metis
next
  case (step x z)
  have "thread_step (ts ! j) (snd x) = Some (thread (fst z), snd z)"
    using step.hyps(1) step.prems(2) by (simp add: assms(4) case_prod_unfold)
  then have st: "sched_step (ts, snd x) j (thread (fst z)) (ts[j := thread (fst z)], snd z)"
    by (rule stepped [OF step.prems(1)])
  from step.IH [of "ts[j := thread (fst z)]"] step.prems(1) obtain js xs where
    "schedule (ts[j := thread (fst z)], snd z) js xs (ts[j := thread (fst y)], snd y)" by auto
  with st show ?case by (blast intro: sched_Cons)
qed

lemmas creation_schedule = thread_schedule [where step = "create_step e p m" and thread = "Creator e p m" for e p m, simplified]
lemmas search_schedule = thread_schedule [where step = "find_step e p" and thread = "Searcher e p" for e p, simplified]

section \<open>A race\<close>

lemma scan_leads_to:
  assumes "fs_inv s" and "create_index (sBlock s) = Some i"
  shows "creation.leads_to e p m (Scan 1, s) (Find_Parent i, s)"
proof -
  have n: "length (ibmap (sBlock s)) = 5859" "n_inodes s \<le> 100"
    using assms(1) fs_inv_n [OF assms(1)] by (simp_all add: fs_inv_def geometry_ok_def superblock_typed_def)
  have i: "0 < i" "int i < n_inodes s" "ibmap (sBlock s) ! i \<noteq> 1"
    using create_index_bound [OF assms] by simp_all
  have used: "ibmap (sBlock s) ! j = 1" if "0 < j" "j < i" for j
    using assms(2) that by (auto simp: create_index_def find_upt_Some_iff)
  have "1 \<le> i" using i(1) by simp
  then show ?thesis
  proof (induction rule: inc_induct)
    case base
    have "create_step e p m (Scan i) s = Some (Find_Parent i, s)" using i n by simp
    then show ?case by (rule creation.leads_to_step)
  next
    case (step j)
    then have "create_step e p m (Scan j) s = Some (Scan (Suc j), s)"
      using used [of j] i(2) n by simp
    from creation.leads_to_trans [OF creation.leads_to_step [OF this] step.IH] show ?case .
  qed
qed

text \<open>A path whose last component is not the one just created names nothing new, and nothing at all if the
  new inode took the place of the one it named.\<close>

lemma matches_iff_not_found:
  assumes "fs_inv s" and "cstring p" and "p \<noteq> ''/''"
  shows "findFileOrDir e s p = Some Null \<longleftrightarrow> (\<forall>j < nat (n_inodes s). \<not> entry_matches e p (inodes s ! j))"
  using findFileOrDir_find [OF assms, of e] by (auto simp: find_upt_None_iff find_upt_Some_iff split: option.splits)

lemma created_elsewhere:
  assumes "fs_inv s" and "fs_inv (created e' s rel par m k i)" and "i < nat (n_inodes s)"
    and "cstring p" and "cstring rel" and "cstring par" and "rel \<noteq> relativeName p" and "p \<noteq> ''/''"
    and "\<forall>j < nat (n_inodes s). j \<noteq> i \<longrightarrow> \<not> entry_matches e p (inodes s ! j)"
  shows "findFileOrDir e (created e' s rel par m k i) p = Some Null"
proof -
  let ?t = "created e' s rel par m k i"
  have l: "i < length (inodes s)" using assms(3) fs_inv_count [OF assms(1)] fs_inv_length [OF assms(1)] by simp
  have "n_inodes ?t = n_inodes s" by (simp add: created_def)
  moreover have "\<not> entry_matches e p (inodes ?t ! j)" if "j < nat (n_inodes s)" for j
    using that assms(7,9) created_new_matches [OF l assms(5,6)] created_other_matches
    by (cases "j = i") auto
  ultimately show ?thesis by (simp add: matches_iff_not_found [OF assms(2,4,8)])
qed

text \<open>Two threads create different paths in the root. The first finds a free number and is held up;
  the second creates its path under the same number; the first goes on.\<close>

lemma race_states:
  assumes "fs_inv s" and "env_ok e" and "dev_ok e (dev s)" and "path_fits e p" and "path_fits e p'"
    and "getRelativeParentName e (Some p) = Some ''/''" and "getRelativeParentName e (Some p') = Some ''/''"
    and "relativeName p \<noteq> relativeName p'" and "create_index (sBlock s) = Some i"
    and "findFileOrDir e s p = Some Null" and "findFileOrDir e s p' = Some Null"
  obtains t u where "create_inode e s p' m' = Some (Inode i, t)" and "create_at e t p m i = Some (Inode i, u)"
    and "findFileOrDir e t p' = Some (Inode i)" and "findFileOrDir e u p = Some (Inode i)"
    and "findFileOrDir e u p' = Some Null"
proof -
  let ?c = "created e s (relativeName p') ''/'' m' 0 i" and ?t = "flushed e (created e s (relativeName p') ''/'' m' 0 i)"
  let ?d = "created e ?t (relativeName p) ''/'' m 0 i"
  have c: "cstring p" "cstring p'" "length (relativeName p) < 256" "length (relativeName p') < 256"
    using assms(4,5) by (simp_all add: path_fits_def)
  note r = cstring_relativeName [OF c(1)] cstring_relativeName [OF c(2)]
  have slash: "cstring ''/''" "length ''/'' < 256" by (simp_all add: cstring_def)
  have i: "0 < i" "i < 100" "i < nat (n_inodes s)"
    using create_index_bound [OF assms(1,9)] by (simp_all add: zless_nat_eq_int_zless)
  have inv: "fs_inv ?t"
    using created_inv [OF assms(1) _ i(1,2) r(2) slash(1) c(4) slash(2)] by simp
  have inv2: "fs_inv ?d" by (rule created_inv [OF inv _ i(1,2) r(1) slash(1) c(3) slash(2)]) simp
  have dt: "dev_ok e (dev ?t)" using assms(3) by (simp add: created_def)
  have root: "create_parent e x q ''/'' = Some (Inode 0)" if "fs_inv x" for x q
    using findRoot_inv [OF that] by (simp add: create_parent_def)
  have ne: "p \<noteq> ''/''" "p' \<noteq> ''/''"
    using assms(10,11) findRoot_inv [OF assms(1)] by (auto simp: findFileOrDir_def)
  have n: "n_inodes ?t = n_inodes s" by (simp add: created_def)
  have 1: "create_inode e s p' m' = Some (Inode i, ?t)"
    using create_at_run [OF assms(1-3,5) i(1,2) assms(7) root [OF assms(1)], of m']
    by (simp add: create_inode_at [OF assms(1)] assms(9))
  have 2: "create_at e ?t p m i = Some (Inode i, flushed e ?d)"
    using create_at_run [OF inv assms(2) dt assms(4) i(1,2) assms(6) root [OF inv], of m] by simp
  have 3: "findFileOrDir e ?t p' = Some (Inode i)"
    using created_found [OF assms(1) _ i(3) c(2) refl assms(7,11), of m' 0] inv by simp
  have none: "\<not> entry_matches e q (inodes s ! j)" if "q = p \<or> q = p'" "j < nat (n_inodes s)" for q j
    using that assms(10,11) c ne matches_iff_not_found [OF assms(1)] by metis
  then have "findFileOrDir e ?c p = Some Null"
    using assms(8) inv i(3) r c ne slash by (intro created_elsewhere [OF assms(1)]) auto
  then have p0: "findFileOrDir e ?t p = Some Null" by simp
  have 4: "findFileOrDir e (flushed e ?d) p = Some (Inode i)"
    using created_found [OF inv inv2 _ c(1) refl assms(6) p0] i(3) n by simp
  have "\<not> entry_matches e p' (inodes ?t ! j)" if "j < nat (n_inodes ?t)" "j \<noteq> i" for j
    using none [of p' j] that n created_other_matches [OF that(2)] by simp
  then have "findFileOrDir e ?d p' = Some Null"
    using assms(8) i(3) n r c ne slash by (intro created_elsewhere [OF inv inv2]) auto
  then have 5: "findFileOrDir e (flushed e ?d) p' = Some Null" by simp
  from that [OF 1 2 3 4 5] show ?thesis .
qed

section \<open>A search that is overtaken\<close>

text \<open>Up to the first match a search goes on from name to name, also past inodes of which only the name fits.\<close>

lemma search_leads_to:
  assumes "fs_inv s" and "cstring p" and "p \<noteq> ''/''" and "getRelativeParentName e (Some p) = Some q"
    and "\<forall>j < i. \<not> entry_matches e p (inodes s ! j)" and "int i < n_inodes s"
  shows "search.leads_to e p (Enter_Search, s) (Compare_Name i, s)"
  using assms(5,6)
proof (induction i)
  case 0
  then show ?case using assms(3) by (intro search.leads_to_step) simp
next
  case (Suc i)
  have i: "i < 100" "i < length (inodes s)"
    using Suc.prems(2) fs_inv_n [OF assms(1)] fs_inv_length [OF assms(1)] by simp_all
  note name = strcmp_name [OF fs_inv_fcb [OF assms(1) i(1)] cstring_relativeName [OF assms(2)]]
    and dir = strcmp_parent [OF fs_inv_fcb [OF assms(1) i(1)] getRelativeParentName_cstring [OF assms(2,4)]]
  have no: "\<not> entry_matches e p (inodes s ! i)" using Suc.prems(1) by simp
  have start: "search.leads_to e p (Enter_Search, s) (Compare_Name i, s)" using Suc by simp
  show ?case
  proof (cases "name_of (inodes s ! i) = relativeName p")
    case False
    then have "find_step e p (Compare_Name i) s = Some (Compare_Name (Suc i), s)"
      using Suc.prems(2) i name by simp
    from search.leads_to_trans [OF start search.leads_to_step [OF this]] show ?thesis .
  next
    case True
    then have "find_step e p (Compare_Name i) s = Some (Compare_Parent i, s)"
      using Suc.prems(2) i name by simp
    moreover have "find_step e p (Compare_Parent i) s = Some (Compare_Name (Suc i), s)"
      using True no i dir assms(4) by (simp add: entry_matches_def)
    ultimately show ?thesis
      by (rule search.leads_to_trans [OF start search.leads_to_trans [OF search.leads_to_step search.leads_to_step]])
  qed
qed

end
