(* ===== verification/Interleaving_Properties.thy ===== *)
theory Interleaving_Properties
  imports Scheduler Example_State
begin

text \<open>Creations, removals and searches, run by several threads at once.\<close>

text \<open>Cut into steps, creation, removal and search are what they were: a thread that is not disturbed
  comes to an end with a result exactly if \<open>create_inode\<close>, \<open>remove_inode\<close> or \<open>findFileOrDir\<close> gives it, in the
  same state.\<close>

lemma steps_agree:
  "(create_inode e s p m = Some (r, t) \<longleftrightarrow>
      (\<lambda>x y. create_step e p m (fst x) (snd x) = Some y)\<^sup>*\<^sup>* (Scan 1, s) (Created r, t)) \<and>
   (remove_inode e s p = Some (b, t) \<longleftrightarrow>
      (\<lambda>x y. remove_step e p (fst x) (snd x) = Some y)\<^sup>*\<^sup>* (Find_Path, s) (Removed b, t)) \<and>
   (findFileOrDir e s p = Some r \<and> t = s \<longleftrightarrow>
      (\<lambda>x y. find_step e p (fst x) (snd x) = Some y)\<^sup>*\<^sup>* (Enter_Search, s) (Found r, t))"
proof -
  have "find_rest e p Enter_Search s = Some (r, t) \<longleftrightarrow> findFileOrDir e s p = Some r \<and> t = s"
    by (cases "findFileOrDir e s p") auto
  then show ?thesis
    using creation.rest_iff_leads_to [of e p m "Scan 1" s r t] removal.rest_iff_leads_to [of e p Find_Path s b t]
      search.rest_iff_leads_to [of e p Enter_Search s r t]
    by (simp add: create_inode_def)
qed

text \<open>C4: However the steps of any number of creations, removals and searches interleave, on any device, the
  invariant of the mounted file system holds after every step. A thread has no defined next step
  exactly if it has returned, or is about to copy a name of 256 characters or more into an inode, or is about
  to look for the directory of the root.\<close>

theorem schedules_keep_invariant:
  assumes "rooted_inv s" and "list_all thread_ok ts" and "schedule (ts, s) js trace (us, t)"
  shows "rooted_inv t \<and> n_inodes t = n_inodes s \<and>
    (\<forall>x \<in> set us. thread_step x t = None \<longleftrightarrow> returned x \<or> doomed x)"
proof -
  have "config_ok (n_inodes s) (us, t)"
    using scheduler.inv_run [OF assms(3), of "n_inodes s"] assms(1,2) by (simp add: config_ok_def list_all_iff)
  then show ?thesis
    using thread_step_undefined_iff [of t] by (simp add: config_ok_def list_all_iff)
qed

definition demo_threads :: "create_pc \<Rightarrow> create_pc \<Rightarrow> thread list" where
  "demo_threads x y = [Creator demo_env ''/a'' 33188 x, Creator demo_env ''/b'' 33188 y]"

lemma demo_b: "path_fits demo_env ''/b''" "getRelativeParentName demo_env (Some ''/b'') = Some ''/''"
  "relativeName ''/b'' = ''b''" "relativeName ''/a'' = ''a''"
  by (simp_all add: path_fits_def cstring_def relativeName_def getRelativeParentName_def demo_env_def)

lemma demo_threads_ok: "list_all thread_ok (demo_threads (Scan 1) (Scan 1))"
  using demo_env_ok demo_path_fits demo_b(1) by (simp add: demo_threads_def host_ok_def env_ok_def path_fits_def)

theorem schedules_keep_invariant_witness:
  "\<exists>x y us t. schedule (Remover demo_env ''/'' Find_Path # demo_threads (Scan 1) (Scan 1), demo_fs) [0, 1] [x, y] (us, t) \<and>
    rooted_inv t \<and> thread_step (us ! 0) t = None \<and> thread_step (us ! 1) t \<noteq> None"
proof -
  let ?ts = "Remover demo_env ''/'' Find_Path # demo_threads (Scan 1) (Scan 1)"
  let ?x = "Remover demo_env ''/'' (Find_Directory (Inode 0))" and ?y = "Creator demo_env ''/a'' 33188 (Find_Parent 1)"
  have "findFileOrDir demo_env demo_fs ''/'' = Some (Inode 0)"
    using findRoot_inv [OF demo_inv] by (simp add: findFileOrDir_def)
  then have x: "thread_step (?ts ! 0) demo_fs = Some (?x, demo_fs)" by simp
  have "create_step demo_env ''/a'' 33188 (Scan 1) demo_fs = Some (Find_Parent 1, demo_fs)"
    using demo_n demo_bitmap(1) demo_bitmap(3) [of 1] by (simp add: arr_get_def)
  then have "thread_step (?ts[0 := ?x] ! 1) demo_fs = Some (?y, demo_fs)"
    by (simp add: demo_threads_def del: create_step.simps)
  from sched_Cons [OF stepped [OF _ x] sched_Cons [OF stepped [OF _ this] sched_Nil]]
  have s: "schedule (?ts, demo_fs) [0, 1] [?x, ?y] (?ts[0 := ?x, 1 := ?y], demo_fs)"
    by (simp add: demo_threads_def)
  have "list_all thread_ok ?ts"
    using demo_threads_ok demo_env_ok by (simp add: host_ok_def env_ok_def cstring_def)
  note k = schedules_keep_invariant [OF demo_rooted this s]
  have u: "thread_step z demo_fs = None \<longleftrightarrow> returned z \<or> doomed z" if "z \<in> set (?ts[0 := ?x, 1 := ?y])" for z
    using k that by blast
  have i: "?ts[0 := ?x, 1 := ?y] ! 0 = ?x" "?ts[0 := ?x, 1 := ?y] ! 1 = ?y" by (simp_all add: demo_threads_def)
  have "?x \<in> set (?ts[0 := ?x, 1 := ?y])" "?y \<in> set (?ts[0 := ?x, 1 := ?y])" by (simp_all add: demo_threads_def)
  from u [OF this(1)] u [OF this(2)] have n: "thread_step ?x demo_fs = None" "thread_step ?y demo_fs \<noteq> None"
    by (simp_all del: thread_step.simps)
  show ?thesis
    by (rule exI [of _ ?x], rule exI [of _ ?y], rule exI [of _ "?ts[0 := ?x, 1 := ?y]"], rule exI [of _ demo_fs])
      (simp only: s k i n simp_thms)
qed



text \<open>C17: Two threads that create different paths of the root can be given the same inode: the number is
  taken from the bitmap when it is tested and marked only when the inode is filled in. Both
  creations report success, and one of the paths does not exist afterwards.\<close>

theorem create_race:
  assumes "fs_inv s" and "env_ok e" and "dev_ok e (dev s)" and "path_fits e p" and "path_fits e p'"
    and "getRelativeParentName e (Some p) = Some ''/''" and "getRelativeParentName e (Some p') = Some ''/''"
    and "relativeName p \<noteq> relativeName p'" and "create_index (sBlock s) = Some i"
    and "findFileOrDir e s p = Some Null" and "findFileOrDir e s p' = Some Null"
  shows "\<exists>js trace u.
    schedule ([Creator e p m (Scan 1), Creator e p' m' (Scan 1)], s) js trace
      ([Creator e p m (Created (Inode i)), Creator e p' m' (Created (Inode i))], u) \<and>
    findFileOrDir e u p = Some (Inode i) \<and> findFileOrDir e u p' = Some Null"
proof -
  obtain t u where t: "create_inode e s p' m' = Some (Inode i, t)" and u: "create_at e t p m i = Some (Inode i, u)"
    and f: "findFileOrDir e u p = Some (Inode i)" "findFileOrDir e u p' = Some Null"
    by (rule race_states [OF assms, of m' m]) blast
  let ?c = "\<lambda>x y. [Creator e p m x, Creator e p' m' y]"
  obtain js1 xs1 where 1: "schedule (?c (Scan 1) (Scan 1), s) js1 xs1 (?c (Find_Parent i) (Scan 1), s)"
    using creation_schedule [OF scan_leads_to [OF assms(1,9), of e p m], of 0 "?c (Scan 1) (Scan 1)"] by auto
  have "create_rest e p' m' (Scan 1) s = Some (Inode i, t)" using t by (simp add: create_inode_def)
  then obtain js2 xs2 where 2:
    "schedule (?c (Find_Parent i) (Scan 1), s) js2 xs2 (?c (Find_Parent i) (Created (Inode i)), t)"
    using creation_schedule [OF creation.rest_leads_to, of e p' m' "Scan 1" s "Inode i" t 1 "?c (Find_Parent i) (Scan 1)"]
    by auto
  have "create_rest e p m (Find_Parent i) t = Some (Inode i, u)" using u by simp
  then obtain js3 xs3 where 3:
    "schedule (?c (Find_Parent i) (Created (Inode i)), t) js3 xs3 (?c (Created (Inode i)) (Created (Inode i)), u)"
    using creation_schedule [OF creation.rest_leads_to, of e p m "Find_Parent i" t "Inode i" u 0
        "?c (Find_Parent i) (Created (Inode i))"] by auto
  from schedule_append [OF 1 schedule_append [OF 2 3]] f show ?thesis by blast
qed

lemma demo_no_b: "findFileOrDir demo_env demo_fs ''/b'' = Some Null"
proof -
  have z: "name_of fcb0 = []" by (simp add: name_of_def fcb0_def numeral_eq_Suc)
  have "\<not> entry_matches demo_env ''/b'' (inodes demo_fs ! i)" if "i < 6" for i
  proof (cases i)
    case 0
    then show ?thesis using entry_matches_not_root [OF demo_inv] by simp
  next
    case (Suc j)
    then have "inodes demo_fs ! i = fcb0" using that by (simp add: demo_inodes)
    then show ?thesis by (simp add: entry_matches_def z demo_b(3) [simplified])
  qed
  then show ?thesis
    using matches_iff_not_found [OF demo_inv, of "''/b''" demo_env] demo_n by (simp add: cstring_def)
qed

theorem create_race_witness:
  "\<exists>js trace u. schedule (demo_threads (Scan 1) (Scan 1), demo_fs) js trace
      (demo_threads (Created (Inode 1)) (Created (Inode 1)), u) \<and>
    findFileOrDir demo_env u ''/b'' = Some Null"
  using create_race [OF demo_inv demo_env_ok demo_dev_ok demo_path_fits demo_b(1) demo_parent_name demo_b(2) _
      demo_create_index demo_no_a demo_no_b, of 33188 33188] demo_b(3,4)
  unfolding demo_threads_def by auto

text \<open>C18: A search compares the name of an inode and the name of its parent one after the other. If between the
  two the inode, free but still carrying its old name, is taken for another path of the same directory, the search
  for a path that has never existed, before or after, returns the inode of the other path.\<close>

theorem lookup_race:
  assumes "fs_inv s" and "env_ok e" and "dev_ok e (dev s)" and "cstring p" and "path_fits e p'"
    and "getRelativeParentName e (Some p) = Some q" and "getRelativeParentName e (Some p') = Some q"
    and "relativeName p \<noteq> relativeName p'"
    and "findFileOrDir e s p = Some Null" and "findFileOrDir e s p' = Some Null"
    and "create_inode e s p' m = Some (Inode i, t)" and "name_of (inodes s ! i) = relativeName p"
  shows "\<exists>js trace. schedule ([Searcher e p Enter_Search, Creator e p' m (Scan 1)], s) js trace
      ([Searcher e p (Found (Inode i)), Creator e p' m (Created (Inode i))], t) \<and>
    findFileOrDir e t p = Some Null \<and> findFileOrDir e t p' = Some (Inode i)"
proof -
  from create_inode_SomeE [OF assms(1-3,5,11)] obtain k q' where
    t: "t = flushed e (created e s (relativeName p') q' m k i)"
    and inv: "fs_inv (created e s (relativeName p') q' m k i)" and i: "i < 100" "i < nat (n_inodes s)"
    and q': "getRelativeParentName e (Some p') = Some q'" and c: "cstring (relativeName p')" "cstring q'" .
  have q: "q' = q" using q' assms(7) by simp
  have ne: "p \<noteq> ''/''" using assms(9) findRoot_inv [OF assms(1)] by (auto simp: findFileOrDir_def)
  have none: "\<forall>j < nat (n_inodes s). \<not> entry_matches e p (inodes s ! j)"
    using assms(9) matches_iff_not_found [OF assms(1,4) ne] by simp
  have l: "length (inodes s) = 100" by (rule fs_inv_length [OF assms(1)])
  let ?c = "\<lambda>x y. [Searcher e p x, Creator e p' m y]"
  have n: "int i < n_inodes s" using i(2) by linarith
  have name: "find_step e p (Compare_Name i) s = Some (Compare_Parent i, s)"
    using strcmp_name [OF fs_inv_fcb [OF assms(1) i(1)] cstring_relativeName [OF assms(4)]] assms(12) n i(1) l by simp
  have "\<forall>j < i. \<not> entry_matches e p (inodes s ! j)" using none i(2) by simp
  from search.leads_to_trans [OF search_leads_to [OF assms(1,4) ne assms(6) this n] search.leads_to_step [OF name]]
  obtain js1 xs1 where 1: "schedule (?c Enter_Search (Scan 1), s) js1 xs1 (?c (Compare_Parent i) (Scan 1), s)"
    using search_schedule [of e p "(Enter_Search, s)" "(Compare_Parent i, s)" 0 "?c Enter_Search (Scan 1)"] by auto
  have "create_rest e p' m (Scan 1) s = Some (Inode i, t)" using assms(11) by (simp add: create_inode_def)
  then obtain js2 xs2 where 2:
    "schedule (?c (Compare_Parent i) (Scan 1), s) js2 xs2 (?c (Compare_Parent i) (Created (Inode i)), t)"
    using creation_schedule [OF creation.rest_leads_to, of e p' m "Scan 1" s "Inode i" t 1 "?c (Compare_Parent i) (Scan 1)"]
    by auto
  have "parent_name_of (inodes t ! i) = q"
    using new_fcb_names [OF c] l i(1) by (simp add: t created_new q)
  moreover have "fcb_ok (inodes t ! i)" "length (inodes t) = 100"
    using inv fs_inv_fcb [of t] fs_inv_length [of t] i(1) by (simp_all add: t)
  ultimately have "find_step e p (Compare_Parent i) t = Some (Found (Inode i), t)"
    using strcmp_parent [OF _ getRelativeParentName_cstring [OF assms(4,6)]] i(1) assms(6) by simp
  then have "search.leads_to e p (Compare_Parent i, t) (Found (Inode i), t)" by (rule search.leads_to_step)
  then obtain js3 xs3 where 3: "schedule (?c (Compare_Parent i) (Created (Inode i)), t) js3 xs3
      (?c (Found (Inode i)) (Created (Inode i)), t)"
    using search_schedule [of e p "(Compare_Parent i, t)" "(Found (Inode i), t)" 0 "?c (Compare_Parent i) (Created (Inode i))"]
    by auto
  have "findFileOrDir e t p = Some Null"
    using created_elsewhere [OF assms(1) inv i(2) assms(4) c _ ne] assms(8) none by (simp add: t)
  moreover have "findFileOrDir e t p' = Some (Inode i)"
    using created_found [OF assms(1) inv i(2) _ refl q' assms(10)] assms(5) by (simp add: t path_fits_def)
  ultimately show ?thesis using schedule_append [OF 1 schedule_append [OF 2 3]] by blast
qed

text \<open>The root after \<open>/y/f\<close> was removed: its inode is free and keeps the name.\<close>

definition demo_gone_fs :: fs where
  "demo_gone_fs = demo_fs\<lparr>inodes := (inodes demo_fs)[1 := new_fcb demo_env fcb0 ''f'' ''y'' 33188 0 1]\<rparr>"

lemma demo_gone_inv: "fs_inv demo_gone_fs"
proof -
  have "fcb_ok (new_fcb demo_env fcb0 ''f'' ''y'' 33188 0 1)"
    by (rule new_fcb_ok [OF fcb0_ok]) (simp_all add: cstring_def)
  then show ?thesis
    unfolding demo_gone_fs_def by (intro fs_inv_update [OF demo_inv]) (simp_all add: number_ok_def new_fcb_def)
qed

lemma demo_gone_name: "name_of (inodes demo_gone_fs ! 1) = ''f''" "parent_name_of (inodes demo_gone_fs ! 1) = ''y''"
  using new_fcb_names [of "''f''" "''y''"] fs_inv_length [OF demo_inv] by (simp_all add: demo_gone_fs_def cstring_def)

lemma demo_gone_no:
  assumes "cstring p" and "p \<noteq> ''/''" and "relativeName p \<noteq> []" and "getRelativeParentName demo_env (Some p) = Some ''/''"
  shows "findFileOrDir demo_env demo_gone_fs p = Some Null"
proof -
  have n: "n_inodes demo_gone_fs = 6" using demo_n by (simp add: demo_gone_fs_def)
  have z: "name_of fcb0 = []" by (simp add: name_of_def fcb0_def numeral_eq_Suc)
  have "\<not> entry_matches demo_env p (inodes demo_gone_fs ! j)" if "j < 6" for j
  proof -
    have "inodes demo_gone_fs ! j = fcb0" if "2 \<le> j"
      using that \<open>j < 6\<close> by (simp add: demo_gone_fs_def demo_inodes)
    then consider "j = 0" | "j = 1" | "inodes demo_gone_fs ! j = fcb0" by linarith
    then show ?thesis
    proof cases
      case 1
      then show ?thesis using entry_matches_not_root [OF demo_gone_inv] by simp
    qed (use demo_gone_name assms(3,4) in \<open>auto simp: entry_matches_def z\<close>)
  qed
  then show ?thesis using matches_iff_not_found [OF demo_gone_inv assms(1,2)] n by simp
qed

theorem lookup_race_witness:
  "\<exists>t js trace. schedule ([Searcher demo_env ''/f'' Enter_Search, Creator demo_env ''/a'' 33188 (Scan 1)], demo_gone_fs) js trace
      ([Searcher demo_env ''/f'' (Found (Inode 1)), Creator demo_env ''/a'' 33188 (Created (Inode 1))], t) \<and>
    findFileOrDir demo_env t ''/f'' = Some Null"
proof -
  have rel: "relativeName ''/f'' = ''f''" "relativeName ''/a'' = ''a''" by (simp_all add: relativeName_def)
  have q: "getRelativeParentName demo_env (Some ''/f'') = Some ''/''" by (simp add: getRelativeParentName_def demo_env_def)
  have no: "findFileOrDir demo_env demo_gone_fs ''/f'' = Some Null" "findFileOrDir demo_env demo_gone_fs ''/a'' = Some Null"
    using demo_gone_no [of "''/f''"] demo_gone_no [of "''/a''"] q demo_parent_name rel by (simp_all add: cstring_def)
  have d: "dev_ok demo_env (dev demo_gone_fs)" using demo_dev_ok by (simp add: demo_gone_fs_def)
  have p: "create_parent demo_env demo_gone_fs ''/a'' ''/'' = Some (Inode 0)"
    using findRoot_inv [OF demo_gone_inv] by (simp add: create_parent_def)
  have "create_index (sBlock demo_gone_fs) = Some 1" using demo_create_index by (simp add: demo_gone_fs_def)
  then obtain t where "create_inode demo_env demo_gone_fs ''/a'' 33188 = Some (Inode 1, t)"
    using create_at_run [OF demo_gone_inv demo_env_ok d demo_path_fits _ _ demo_parent_name p, of 1 33188]
    by (simp add: create_inode_at [OF demo_gone_inv])
  from lookup_race [OF demo_gone_inv demo_env_ok d _ demo_path_fits q demo_parent_name _ no this] show ?thesis
    using demo_gone_name rel by (auto simp: cstring_def)
qed

end
