(* ===== verification/Log.thy ===== *)
theory Log
  imports Sfs_Ops
begin

text \<open>
  The log file (\<open>src/src/log.c\<close>, the macro \<open>log_struct\<close> of \<open>log.h\<close>, and \<open>struct sfs_state\<close> of
  \<open>params.h\<close>): the text that \<open>log_msg\<close> and the dumps of structures add to it. A variadic
  argument is a slot of 64 bits, as in the calling convention of x86-64: a conversion without
  \<open>l\<close> reads the low half of a slot, and one with \<open>l\<close> of a slot that was passed an \<open>int\<close> reads
  a half that was never written, which is undefined. Shown is how much of a structure its
  dump determines.
\<close>

section \<open>Numbers as text\<close>

definition digit :: "nat \<Rightarrow> char" where
  "digit n = (if n < 10 then char_of (48 + n) else char_of (87 + n))"

fun digits :: "nat \<Rightarrow> nat \<Rightarrow> string" where
  "digits b n = (if n < b \<or> b < 2 then [digit n] else digits b (n div b) @ [digit (n mod b)])"

declare digits.simps [simp del]

definition show_int :: "int \<Rightarrow> string" where
  "show_int i = (if i < 0 then CHR ''-'' # digits 10 (nat (- i)) else digits 10 (nat i))"

text \<open>The text read back: the value of a string of digits.\<close>

definition digit_val :: "char \<Rightarrow> nat" where
  "digit_val c = (if of_char c < (58 :: nat) then of_char c - 48 else of_char c - 87)"

definition digits_val :: "nat \<Rightarrow> string \<Rightarrow> nat" where
  "digits_val b s = foldl (\<lambda>a c. b * a + digit_val c) 0 s"

lemma digit_val_digit [simp]: "n < 16 \<Longrightarrow> digit_val (digit n) = n"
  by (simp add: digit_def digit_val_def)

lemma digits_val_snoc: "digits_val b (s @ [c]) = b * digits_val b s + digit_val c"
  by (simp add: digits_val_def)

lemma digits_val_digits: "2 \<le> b \<Longrightarrow> b \<le> 16 \<Longrightarrow> digits_val b (digits b n) = n"
proof (induction b n rule: digits.induct)
  case (1 b n)
  show ?case
  proof (cases "n < b")
    case True
    then show ?thesis using 1 by (simp add: digits.simps [of b n] digits_val_def)
  next
    case False
    then have "n mod b < 16" using "1.prems" mod_less_divisor [of b n] by linarith
    then show ?thesis
      using 1 False by (simp add: digits.simps [of b n] digits_val_snoc)
  qed
qed

lemma digit_val_zero: "digit_val (CHR ''0'') = 0"
  by (simp add: digit_val_def)

lemma digits_val_padded: "digits_val b (replicate k (CHR ''0'') @ s) = digits_val b s"
  by (induction k) (simp_all add: digits_val_def digit_val_zero)

section \<open>Formatted output\<close>

datatype arg = I32 c_int | I64 c_long | Str string

text \<open>One conversion: flag \<open>0\<close>, least width, \<open>l\<close> or \<open>ll\<close>, conversion character.\<close>

record conversion =
  zero_flag :: bool
  min_width :: nat
  long_arg :: bool
  conv_char :: char

definition is_digit :: "char \<Rightarrow> bool" where
  "is_digit c \<longleftrightarrow> c \<in> set ''0123456789''"

definition parse_conversion :: "string \<Rightarrow> (conversion \<times> string) option" where
  "parse_conversion s =
     (let z = (s \<noteq> [] \<and> hd s = CHR ''0'');
          r = (if z then tl s else s);
          w = takeWhile is_digit r;
          r1 = dropWhile is_digit r;
          ls = takeWhile (\<lambda>c. c = CHR ''l'') r1
      in case dropWhile (\<lambda>c. c = CHR ''l'') r1 of
           [] \<Rightarrow> None
         | c # rest \<Rightarrow> Some (\<lparr>zero_flag = z, min_width = digits_val 10 w, long_arg = ls \<noteq> [],
             conv_char = c\<rparr>, rest))"

definition pad :: "conversion \<Rightarrow> string \<Rightarrow> string" where
  "pad c t = replicate (min_width c - length t) (if zero_flag c then CHR ''0'' else CHR '' '') @ t"

text \<open>Zeros go between the sign and the digits.\<close>

definition signed_text :: "conversion \<Rightarrow> int \<Rightarrow> string" where
  "signed_text c i =
     (if zero_flag c \<and> i < 0
      then CHR ''-'' # pad (c\<lparr>min_width := min_width c - 1\<rparr>) (digits 10 (nat (- i)))
      else pad c (show_int i))"

definition int_text :: "conversion \<Rightarrow> 'a::len word \<Rightarrow> string option" where
  "int_text c w =
     (if conv_char c = CHR ''d'' then Some (signed_text c (sint w))
      else if conv_char c = CHR ''x'' then Some (pad c (digits 16 (unat w)))
      else if conv_char c = CHR ''o'' then Some (pad c (digits 8 (unat w)))
      else None)"

fun conversion_text :: "conversion \<Rightarrow> arg \<Rightarrow> string option" where
  "conversion_text c (I32 w) = (if long_arg c then None else int_text c w)"
| "conversion_text c (I64 w) = (if long_arg c then int_text c w else int_text c (ucast w :: c_int))"
| "conversion_text c (Str t) =
     (if conv_char c = CHR ''s'' \<and> \<not> long_arg c \<and> \<not> zero_flag c then Some (pad c t) else None)"

lemma length_parse_conversion: "parse_conversion s = Some (c, rest) \<Longrightarrow> length rest < length s"
proof -
  assume "parse_conversion s = Some (c, rest)"
  then have d: "dropWhile (\<lambda>c. c = CHR ''l'') (dropWhile is_digit (if s \<noteq> [] \<and> hd s = CHR ''0'' then tl s else s))
      = conv_char c # rest"
    by (auto simp: parse_conversion_def Let_def split: list.splits)
  have "length (conv_char c # rest) \<le> length (if s \<noteq> [] \<and> hd s = CHR ''0'' then tl s else s)"
    unfolding d [symmetric] by (intro order_trans [OF length_dropWhile_le]) simp
  also have "\<dots> \<le> length s" by simp
  finally show "length rest < length s" by simp
qed

function vfprintf :: "string \<Rightarrow> arg list \<Rightarrow> string option" where
  "vfprintf [] as = Some []"
| "vfprintf (x # f) as =
     (if x \<noteq> CHR ''%'' then map_option (Cons x) (vfprintf f as)
      else case parse_conversion f of
             None \<Rightarrow> None
           | Some (c, rest) \<Rightarrow>
               (case as of
                  [] \<Rightarrow> None
                | a # as' \<Rightarrow> do {
                    t \<leftarrow> conversion_text c a;
                    r \<leftarrow> vfprintf rest as';
                    Some (t @ r) }))"
  by pat_completeness auto
termination
  by (relation "measure (\<lambda>(f, as). length f)") (auto dest: length_parse_conversion)

section \<open>The functions of \<open>log.c\<close>\<close>

text \<open>
  The log is the text written so far. \<open>log_open\<close> truncates the file; if that fails the
  program exits. \<open>log_struct\<close> is a macro: the name of the field becomes part of the format.
\<close>

definition nl :: string where "nl = [CHR 0x0A]"

definition log_open :: "bool \<Rightarrow> string option" where
  "log_open opened = (if opened then Some [] else None)"

definition log_msg :: "string \<Rightarrow> arg list \<Rightarrow> string \<Rightarrow> string option" where
  "log_msg format as log = map_option (\<lambda>t. log @ t) (vfprintf format as)"

definition log_struct :: "string \<Rightarrow> string \<Rightarrow> arg \<Rightarrow> string \<Rightarrow> string option" where
  "log_struct field format a log = log_msg (''    '' @ field @ '' = '' @ format @ nl) [a] log"

fun log_structs :: "(string \<times> string \<times> arg) list \<Rightarrow> string \<Rightarrow> string option" where
  "log_structs [] log = Some log"
| "log_structs ((field, format, a) # fs) log = do {
     log' \<leftarrow> log_struct field format a log;
     log_structs fs log' }"

text \<open>The structures, with the members the functions read; pointers are their values.\<close>

record sfs_state =
  logfile :: c_long
  diskfile_path :: string

record fuse_context =
  fuse :: c_long
  ctx_uid :: c_int
  ctx_gid :: c_int
  ctx_pid :: c_int
  private_data :: c_long
  umask :: c_int

record fuse_conn_info =
  proto_major :: c_int
  proto_minor :: c_int
  async_read :: c_int
  max_write :: c_int
  max_readahead :: c_int
  capable :: c_int
  want :: c_int

record fuse_file_info =
  fi_flags :: c_int
  fh_old :: c_long
  writepage :: c_int
  direct_io :: bool
  keep_cache :: bool
  fh :: c_long
  lock_owner :: c_long

record statvfs =
  f_bsize :: c_long
  f_frsize :: c_long
  f_blocks :: c_long
  f_bfree :: c_long
  f_bavail :: c_long
  f_files :: c_long
  f_ffree :: c_long
  f_favail :: c_long
  f_fsid :: c_long
  f_flag :: c_long
  f_namemax :: c_long

record utimbuf =
  actime :: c_long
  modtime :: c_long

definition log_fuse_context :: "fuse_context \<Rightarrow> sfs_state \<Rightarrow> string \<Rightarrow> string option" where
  "log_fuse_context context state log = do {
     log' \<leftarrow> log_msg (''    context:'' @ nl) [] log;
     log_structs
       [(''fuse'', ''%08x'', I64 (fuse context)), (''uid'', ''%d'', I32 (ctx_uid context)),
        (''gid'', ''%d'', I32 (ctx_gid context)), (''pid'', ''%d'', I32 (ctx_pid context)),
        (''private_data'', ''%08x'', I64 (private_data context)),
        (''logfile'', ''%08x'', I64 (logfile state)), (''diskfile'', ''%s'', Str (diskfile_path state)),
        (''umask'', ''%05o'', I32 (umask context))] log' }"

definition log_conn :: "fuse_conn_info \<Rightarrow> string \<Rightarrow> string option" where
  "log_conn conn log = do {
     log' \<leftarrow> log_msg (''    conn:'' @ nl) [] log;
     log_structs
       [(''proto_major'', ''%d'', I32 (proto_major conn)), (''proto_minor'', ''%d'', I32 (proto_minor conn)),
        (''async_read'', ''%d'', I32 (async_read conn)), (''max_write'', ''%d'', I32 (max_write conn)),
        (''max_readahead'', ''%d'', I32 (max_readahead conn)), (''capable'', ''%08x'', I32 (capable conn)),
        (''want'', ''%08x'', I32 (want conn))] log' }"

definition log_fi :: "fuse_file_info \<Rightarrow> string \<Rightarrow> string option" where
  "log_fi fi log = do {
     log' \<leftarrow> log_msg (''    fi:'' @ nl) [] log;
     log_structs
       [(''flags'', ''0x%08x'', I32 (fi_flags fi)), (''fh_old'', ''0x%08lx'', I64 (fh_old fi)),
        (''writepage'', ''%d'', I32 (writepage fi)), (''direct_io'', ''%d'', I32 (of_bool (direct_io fi))),
        (''keep_cache'', ''%d'', I32 (of_bool (keep_cache fi))), (''fh'', ''0x%016llx'', I64 (fh fi)),
        (''lock_owner'', ''0x%016llx'', I64 (lock_owner fi))] log' }"

definition log_stat :: "stat \<Rightarrow> string \<Rightarrow> string option" where
  "log_stat si log = do {
     log' \<leftarrow> log_msg (''    si:'' @ nl) [] log;
     log_structs
       [(''st_dev'', ''%lld'', I64 (st_dev si)), (''st_ino'', ''%lld'', I64 (st_ino si)),
        (''st_mode'', ''0%o'', I32 (st_mode si)), (''st_nlink'', ''%d'', I64 (st_nlink si)),
        (''st_uid'', ''%d'', I32 (st_uid si)), (''st_gid'', ''%d'', I32 (st_gid si)),
        (''st_rdev'', ''%lld'', I64 (st_rdev si)), (''st_size'', ''%lld'', I64 (st_size si)),
        (''st_blksize'', ''%ld'', I64 (st_blksize si)), (''st_blocks'', ''%lld'', I64 (st_blocks si)),
        (''st_atime'', ''0x%08lx'', I64 (st_atime si)), (''st_mtime'', ''0x%08lx'', I64 (st_mtime si)),
        (''st_ctime'', ''0x%08lx'', I64 (st_ctime si))] log' }"

definition log_statvfs :: "statvfs \<Rightarrow> string \<Rightarrow> string option" where
  "log_statvfs sv log = do {
     log' \<leftarrow> log_msg (''    sv:'' @ nl) [] log;
     log_structs
       [(''f_bsize'', ''%ld'', I64 (f_bsize sv)), (''f_frsize'', ''%ld'', I64 (f_frsize sv)),
        (''f_blocks'', ''%lld'', I64 (f_blocks sv)), (''f_bfree'', ''%lld'', I64 (f_bfree sv)),
        (''f_bavail'', ''%lld'', I64 (f_bavail sv)), (''f_files'', ''%lld'', I64 (f_files sv)),
        (''f_ffree'', ''%lld'', I64 (f_ffree sv)), (''f_favail'', ''%lld'', I64 (f_favail sv)),
        (''f_fsid'', ''%ld'', I64 (f_fsid sv)), (''f_flag'', ''0x%08lx'', I64 (f_flag sv)),
        (''f_namemax'', ''%ld'', I64 (f_namemax sv))] log' }"

definition log_utime :: "utimbuf \<Rightarrow> string \<Rightarrow> string option" where
  "log_utime buf log = do {
     log' \<leftarrow> log_msg (''    buf:'' @ nl) [] log;
     log_structs
       [(''actime'', ''0x%08lx'', I64 (actime buf)), (''modtime'', ''0x%08lx'', I64 (modtime buf))] log' }"

section \<open>The text of one number\<close>

lemma digits_inject: "2 \<le> b \<Longrightarrow> b \<le> 16 \<Longrightarrow> digits b m = digits b n \<longleftrightarrow> m = n"
  by (metis digits_val_digits)

lemma digits_codes: "2 \<le> b \<Longrightarrow> b \<le> 16 \<Longrightarrow> c \<in> set (digits b n) \<Longrightarrow> 48 \<le> (of_char c :: nat)"
proof (induction b n rule: digits.induct)
  case (1 b n)
  have d: "48 \<le> (of_char (digit k) :: nat)" if "k < 16" for k
    using that by (simp add: digit_def)
  show ?case
  proof (cases "n < b")
    case True
    with 1 d show ?thesis by (simp add: digits.simps [of b n])
  next
    case False
    then have "n mod b < 16" using "1.prems"(1,2) mod_less_divisor [of b n] by linarith
    with 1 False d show ?thesis by (auto simp: digits.simps [of b n])
  qed
qed

text \<open>Line feed and minus are no digits.\<close>

lemma digits_no_feed: "2 \<le> b \<Longrightarrow> b \<le> 16 \<Longrightarrow> CHR 0x0A \<notin> set (digits b n)"
  using digits_codes [of b "CHR 0x0A" n] by auto

lemma digits_no_minus: "CHR ''-'' \<notin> set (digits 10 n)"
  using digits_codes [of 10 "CHR ''-''" n] by auto

lemma show_int_no_feed: "CHR 0x0A \<notin> set (show_int i)"
  by (simp add: show_int_def digits_no_feed)

lemma show_int_inject: "show_int i = show_int j \<longleftrightarrow> i = j"
proof
  assume eq: "show_int i = show_int j"
  have m: "CHR ''-'' # s \<noteq> digits 10 n" for s n by (metis digits_no_minus list.set_intros(1))
  show "i = j"
    using eq m m [THEN not_sym] by (auto simp: show_int_def digits_inject split: if_splits)
qed simp

definition zeros_to :: "nat \<Rightarrow> string \<Rightarrow> string" where
  "zeros_to w t = replicate (w - length t) (CHR ''0'') @ t"

lemma zeros_to_inject:
  assumes "2 \<le> b" and "b \<le> 16"
  shows "zeros_to w (digits b m) = zeros_to w (digits b n) \<longleftrightarrow> m = n"
proof
  assume "zeros_to w (digits b m) = zeros_to w (digits b n)"
  then have "digits_val b (zeros_to w (digits b m)) = digits_val b (zeros_to w (digits b n))" by simp
  then show "m = n" by (simp add: zeros_to_def digits_val_padded digits_val_digits assms)
qed simp

lemma zeros_to_no_feed: "2 \<le> b \<Longrightarrow> b \<le> 16 \<Longrightarrow> CHR 0x0A \<notin> set (zeros_to w (digits b n))"
  by (simp add: zeros_to_def digits_no_feed)

section \<open>The text of one line\<close>

text \<open>What the format and the line feed of a line give for an argument.\<close>

definition prints :: "string \<Rightarrow> arg \<Rightarrow> string \<Rightarrow> bool" where
  "prints format a t \<longleftrightarrow> vfprintf (format @ nl) [a] = Some (t @ nl) \<and> CHR 0x0A \<notin> set t"

lemmas conversion_defs = parse_conversion_def int_text_def signed_text_def pad_def nl_def prints_def

lemma digit_chars [simp]:
  "is_digit (CHR ''0'')" "is_digit (CHR ''1'')" "is_digit (CHR ''5'')" "is_digit (CHR ''6'')" "is_digit (CHR ''8'')"
  "\<not> is_digit (CHR ''d'')" "\<not> is_digit (CHR ''x'')" "\<not> is_digit (CHR ''o'')" "\<not> is_digit (CHR ''s'')"
  "\<not> is_digit (CHR ''l'')"
  by (simp_all add: is_digit_def)

named_theorems prints

lemma prints_d [prints]:
  "prints ''%d'' (I32 w) (show_int (sint w))"
  "prints ''%d'' (I64 v) (show_int (sint (ucast v :: c_int)))"
  "prints ''%ld'' (I64 v) (show_int (sint v))"
  "prints ''%lld'' (I64 v) (show_int (sint v))"
  by (simp_all add: conversion_defs digits_val_def show_int_no_feed)

lemma digits_val_width [simp]: "digits_val 10 [] = 0" "digits_val 10 ''8'' = 8" "digits_val 10 ''5'' = 5" "digits_val 10 ''16'' = 16"
  by (simp_all add: digits_val_def digit_val_def)

lemma prints_x [prints]:
  "prints ''%08x'' (I32 w) (zeros_to 8 (digits 16 (unat w)))"
  "prints ''%08x'' (I64 v) (zeros_to 8 (digits 16 (unat (ucast v :: c_int))))"
  "prints ''0x%08x'' (I32 w) (''0x'' @ zeros_to 8 (digits 16 (unat w)))"
  "prints ''0x%08lx'' (I64 v) (''0x'' @ zeros_to 8 (digits 16 (unat v)))"
  "prints ''0x%016llx'' (I64 v) (''0x'' @ zeros_to 16 (digits 16 (unat v)))"
  by (simp_all add: conversion_defs zeros_to_def digits_no_feed)

lemma prints_o [prints]:
  "prints ''0%o'' (I32 w) (''0'' @ digits 8 (unat w))"
  "prints ''%05o'' (I32 w) (zeros_to 5 (digits 8 (unat w)))"
  by (simp_all add: conversion_defs zeros_to_def digits_no_feed)

lemma prints_s [prints]: "CHR 0x0A \<notin> set t \<Longrightarrow> prints ''%s'' (Str t) t"
  by (simp add: conversion_defs)

section \<open>The dump of a structure\<close>

lemma vfprintf_plain: "CHR ''%'' \<notin> set p \<Longrightarrow> vfprintf (p @ f) as = map_option (\<lambda>t. p @ t) (vfprintf f as)"
  by (induction p; cases "vfprintf f as") auto

definition log_line :: "string \<Rightarrow> string \<Rightarrow> string" where
  "log_line field t = ''    '' @ field @ '' = '' @ t @ nl"

text \<open>The text of an argument, and the arguments a format can print.\<close>

definition arg_text :: "string \<Rightarrow> arg \<Rightarrow> string" where
  "arg_text format a = butlast (the (vfprintf (format @ nl) [a]))"

definition can_print :: "string \<Rightarrow> arg \<Rightarrow> bool" where
  "can_print format a \<longleftrightarrow> prints format a (arg_text format a)"

lemma prints_arg_text: "prints f a t \<Longrightarrow> arg_text f a = t"
  by (simp add: prints_def arg_text_def nl_def)

lemma prints_can_print: "prints f a t \<Longrightarrow> can_print f a"
  by (simp add: can_print_def prints_arg_text)

lemmas texts [simp] = prints [THEN prints_arg_text]
lemmas can_print_formats [simp] = prints [THEN prints_can_print]

definition line_ok :: "string \<times> string \<times> arg \<Rightarrow> bool" where
  "line_ok x \<longleftrightarrow> (case x of (field, format, a) \<Rightarrow> CHR ''%'' \<notin> set field \<and> can_print format a)"

definition line_of :: "string \<times> string \<times> arg \<Rightarrow> string" where
  "line_of x = (case x of (field, format, a) \<Rightarrow> log_line field (arg_text format a))"

lemma log_struct_run:
  assumes "line_ok (field, format, a)"
  shows "log_struct field format a l = Some (l @ line_of (field, format, a))"
proof -
  have "CHR ''%'' \<notin> set field" and "prints format a (arg_text format a)"
    using assms by (simp_all add: line_ok_def can_print_def)
  then have "vfprintf ((''    '' @ field @ '' = '') @ (format @ nl)) [a]
      = Some ((''    '' @ field @ '' = '') @ (arg_text format a @ nl))"
    by (subst vfprintf_plain) (simp_all add: prints_def)
  then show ?thesis by (simp add: log_struct_def log_msg_def log_line_def line_of_def)
qed

lemma log_structs_run:
  "list_all line_ok fs \<Longrightarrow> log_structs fs l = Some (l @ concat (map line_of fs))"
  by (induction fs l rule: log_structs.induct) (simp_all add: log_struct_run)

lemma log_msg_title: "CHR ''%'' \<notin> set t \<Longrightarrow> log_msg t [] l = Some (l @ t)"
  using vfprintf_plain [of t "[]" "[]"] by (simp add: log_msg_def)

lemma dump_run:
  assumes "CHR ''%'' \<notin> set title" and "list_all line_ok fs"
  shows "do { l' \<leftarrow> log_msg title [] l; log_structs fs l' } = Some (l @ title @ concat (map line_of fs))"
  by (simp add: log_msg_title [OF assms(1)] log_structs_run [OF assms(2)])

text \<open>The end of a line is known, so equal dumps of the same fields have equal texts.\<close>

lemma line_end:
  assumes "x \<notin> set t" and "x \<notin> set u"
  shows "t @ x # r = u @ x # q \<longleftrightarrow> t = u \<and> r = q"
  using assms by (auto simp: append_eq_append_conv2 append_eq_Cons_conv Cons_eq_append_conv)

lemma line_of_inject:
  assumes "line_ok (n, f, a)" and "line_ok (n, f, b)"
  shows "line_of (n, f, a) @ r = line_of (n, f, b) @ q \<longleftrightarrow> arg_text f a = arg_text f b \<and> r = q"
  using assms line_end [of "CHR 0x0A" "arg_text f a" "arg_text f b" r q]
  by (simp add: line_ok_def can_print_def prints_def line_of_def log_line_def nl_def)

text \<open>Two lists of the same fields, printed with the same formats.\<close>

definition same_fields :: "(string \<times> string \<times> arg) list \<Rightarrow> (string \<times> string \<times> arg) list \<Rightarrow> bool" where
  "same_fields fs gs \<longleftrightarrow> list_all2 (\<lambda>(n, f, a) (m, g, b). n = m \<and> f = g) fs gs"

definition same_texts :: "(string \<times> string \<times> arg) list \<Rightarrow> (string \<times> string \<times> arg) list \<Rightarrow> bool" where
  "same_texts fs gs \<longleftrightarrow> list_all2 (\<lambda>(n, f, a) (m, g, b). arg_text f a = arg_text g b) fs gs"

lemma lines_inject:
  assumes "same_fields fs gs" and "list_all line_ok fs" and "list_all line_ok gs"
  shows "concat (map line_of fs) = concat (map line_of gs) \<longleftrightarrow> same_texts fs gs"
  using assms unfolding same_fields_def same_texts_def
proof (induction rule: list_all2_induct)
  case Nil
  then show ?case by simp
next
  case (Cons x xs y ys)
  obtain n f a b where "x = (n, f, a)" and "y = (n, f, b)"
    using Cons.hyps(1) by (auto split: prod.splits)
  then show ?case using Cons by (simp add: line_of_inject)
qed

lemma dumps_same:
  assumes "CHR ''%'' \<notin> set title" and "same_fields fs gs" and "list_all line_ok fs" and "list_all line_ok gs"
  shows "do { l' \<leftarrow> log_msg title [] l; log_structs fs l' } = do { l' \<leftarrow> log_msg title [] l; log_structs gs l' }
    \<longleftrightarrow> same_texts fs gs"
  unfolding dump_run [OF assms(1,3)] dump_run [OF assms(1,4)] by (simp add: lines_inject [OF assms(2-4)])

lemmas dump_defs = nl_def line_ok_def same_fields_def same_texts_def

section \<open>What a dump determines\<close>

lemma show_sint [simp]: "show_int (sint (v :: 'a::len word)) = show_int (sint w) \<longleftrightarrow> v = w"
  by (simp add: show_int_inject sint_inject)

lemma zeros_unat [simp]:
  "zeros_to k (digits 16 (unat (v :: 'a::len word))) = zeros_to k (digits 16 (unat w)) \<longleftrightarrow> v = w"
  "zeros_to k (digits 8 (unat (v :: 'a::len word))) = zeros_to k (digits 8 (unat w)) \<longleftrightarrow> v = w"
  by (simp_all add: zeros_to_inject word_unat_eq_iff)

lemma octal_unat [simp]: "digits 8 (unat (v :: 'a::len word)) = digits 8 (unat w) \<longleftrightarrow> v = w"
  by (simp add: digits_inject word_unat_eq_iff)

lemma log_stat_same:
  "log_stat a l = log_stat b l \<longleftrightarrow>
     a\<lparr>st_nlink := 0\<rparr> = b\<lparr>st_nlink := 0\<rparr> \<and> (ucast (st_nlink a) :: c_int) = ucast (st_nlink b)"
  unfolding log_stat_def
  by (subst dumps_same, simp add: nl_def, simp add: dump_defs, simp add: dump_defs, simp add: dump_defs,
      cases a, cases b, auto simp: dump_defs)

lemma log_fi_same: "log_fi a l = log_fi b l \<longleftrightarrow> a = b"
  unfolding log_fi_def
  by (subst dumps_same, simp add: nl_def, simp add: dump_defs, simp add: dump_defs, simp add: dump_defs,
      cases a, cases b, auto simp: dump_defs)

lemma log_conn_same: "log_conn a l = log_conn b l \<longleftrightarrow> a = b"
  unfolding log_conn_def
  by (subst dumps_same, simp add: nl_def, simp add: dump_defs, simp add: dump_defs, simp add: dump_defs,
      cases a, cases b, auto simp: dump_defs)

lemma log_statvfs_same: "log_statvfs a l = log_statvfs b l \<longleftrightarrow> a = b"
  unfolding log_statvfs_def
  by (subst dumps_same, simp add: nl_def, simp add: dump_defs, simp add: dump_defs, simp add: dump_defs,
      cases a, cases b, auto simp: dump_defs)

lemma log_utime_same: "log_utime a l = log_utime b l \<longleftrightarrow> a = b"
  unfolding log_utime_def
  by (subst dumps_same, simp add: nl_def, simp add: dump_defs, simp add: dump_defs, simp add: dump_defs,
      cases a, cases b, auto simp: dump_defs)

text \<open>The same holds for the context as far as it is printed, if the path of the disk file is one line.\<close>

lemma log_fuse_context_same:
  assumes "CHR 0x0A \<notin> set (diskfile_path s)" and "CHR 0x0A \<notin> set (diskfile_path t)"
  shows "log_fuse_context a s l = log_fuse_context b t l \<longleftrightarrow>
    (ucast (fuse a) :: c_int) = ucast (fuse b) \<and> ctx_uid a = ctx_uid b \<and> ctx_gid a = ctx_gid b \<and>
    ctx_pid a = ctx_pid b \<and> (ucast (private_data a) :: c_int) = ucast (private_data b) \<and>
    (ucast (logfile s) :: c_int) = ucast (logfile t) \<and> diskfile_path s = diskfile_path t \<and> umask a = umask b"
  unfolding log_fuse_context_def using assms
  by (subst dumps_same, simp add: nl_def, simp add: dump_defs, simp add: dump_defs, simp add: dump_defs,
      auto simp: dump_defs)

text \<open>Every dump appends to the log and never fails.\<close>

definition appends :: "(string \<Rightarrow> string option) \<Rightarrow> bool" where
  "appends f \<longleftrightarrow> (\<exists>t. \<forall>l. f l = Some (l @ t))"

lemma appends_dump:
  assumes "CHR ''%'' \<notin> set title" and "list_all line_ok fs"
  shows "appends (\<lambda>l. do { l' \<leftarrow> log_msg title [] l; log_structs fs l' })"
  unfolding appends_def dump_run [OF assms] by blast

lemma dumps_append:
  "appends (log_stat si)" "appends (log_fi fi)" "appends (log_conn c)" "appends (log_statvfs sv)" "appends (log_utime u)"
  unfolding log_stat_def log_fi_def log_conn_def log_statvfs_def log_utime_def
  by (rule appends_dump; simp add: dump_defs)+

lemma context_appends: "CHR 0x0A \<notin> set (diskfile_path s) \<Longrightarrow> appends (log_fuse_context c s)"
  unfolding log_fuse_context_def by (rule appends_dump) (simp_all add: dump_defs)

end
