(* ===== verification/Log_Properties.thy ===== *)
theory Log_Properties
  imports Log
begin

text \<open>How much of a structure can be read off its dump in the log file.\<close>

text \<open>C40: Dumping a \<open>struct stat\<close> only appends to the log, and the text determines every member but the
  count of links, which has 64 bits and is printed with a conversion for 32.\<close>

theorem log_stat_determines:
  "appends (log_stat a) \<and> (log_stat a l = log_stat b l \<longleftrightarrow>
     a\<lparr>st_nlink := 0\<rparr> = b\<lparr>st_nlink := 0\<rparr> \<and> (ucast (st_nlink a) :: c_int) = ucast (st_nlink b))"
  by (simp only: dumps_append log_stat_same simp_thms)

text \<open>The dumps of an open file, of the connection, of the file system's statistics and of the times of
  a file lose nothing: different structures have different dumps.\<close>

lemma log_dumps_determine:
  "(log_fi f l = log_fi f' l \<longleftrightarrow> f = f') \<and> (log_conn c l = log_conn c' l \<longleftrightarrow> c = c') \<and>
   (log_statvfs v l = log_statvfs v' l \<longleftrightarrow> v = v') \<and> (log_utime u l = log_utime u' l \<longleftrightarrow> u = u')"
  by (simp only: log_fi_same log_conn_same log_statvfs_same log_utime_same simp_thms)

text \<open>The dump of the context prints of every pointer the low 32 bits only, so contexts that differ in
  the high halves of their pointers have the same dump; all other members can be read off it.\<close>

lemma log_context_pointers:
  assumes "CHR 0x0A \<notin> set (diskfile_path s)" and "CHR 0x0A \<notin> set (diskfile_path t)"
  shows "log_fuse_context a s l = log_fuse_context b t l \<longleftrightarrow>
    a\<lparr>fuse := 0, private_data := 0\<rparr> = b\<lparr>fuse := 0, private_data := 0\<rparr> \<and> diskfile_path s = diskfile_path t \<and>
    (ucast (fuse a) :: c_int) = ucast (fuse b) \<and> (ucast (private_data a) :: c_int) = ucast (private_data b) \<and>
    (ucast (logfile s) :: c_int) = ucast (logfile t)"
  unfolding log_fuse_context_same [OF assms] by (cases a; cases b) auto

end
