(* ===== verification/Crash.thy ===== *)
theory Crash
  imports Remount
begin

text \<open>
  Crashes. \<open>flushAllInodesTodisk\<close> runs inside every creation and removal and writes the disk file
  in place, in many transfers: each range first gets the character \<open>'0'\<close> and then its data. Here
  the transfers of a flush are listed in their order, the flush is shown to be their effect, and a
  process that dies (or a machine that stops) after some of them leaves the effect of a prefix.
  What a later mount makes of that disk file is determined for every prefix. The transfers are
  taken to reach the file in the order in which they are made.
\<close>

section \<open>The transfers of a flush\<close>

text \<open>One \<open>pwrite\<close>: its offset and what it takes. One at a negative offset fails and has no effect.\<close>

type_synonym transfer = "int \<times> byte list"

definition transferred :: "transfer list \<Rightarrow> byte list \<Rightarrow> byte list" where
  "transferred cs f = fold (\<lambda>(off, bs) f. if off < 0 then f else file_write (nat off) bs f) cs f"

lemma transferred_simps [simp]:
  "transferred [] f = f"
  "transferred ((off, bs) # cs) f = transferred cs (if off < 0 then f else file_write (nat off) bs f)"
  "transferred (cs @ ds) f = transferred ds (transferred cs f)"
  by (simp_all add: transferred_def)

text \<open>The data follow the padding only if that did not fail.\<close>

definition block_write_padded_calls :: "int \<Rightarrow> byte list \<Rightarrow> int \<Rightarrow> int \<Rightarrow> transfer list option" where
  "block_write_padded_calls block_num buf sz offset = do {
     off \<leftarrow> block_offset block_num offset;
     (if sz < 0 \<or> int BLOCK_SIZE < sz \<or> int (length buf) < sz then None
      else Some ((off, take (nat sz) (pad_bytes BLOCK_SIZE)) #
        (if off < 0 then [] else [(off, take (nat sz) buf)]))) }"

definition sBlock_write_padded_calls :: "byte list \<Rightarrow> int \<Rightarrow> transfer list option" where
  "sBlock_write_padded_calls buf sz =
     (if sz \<le> 0 \<or> int (length buf) < sz then None
      else Some [(0, pad_bytes (nat sz)), (0, take (nat sz) buf)])"

fun flush_loop_calls :: "env \<Rightarrow> fs \<Rightarrow> nat \<Rightarrow> nat \<Rightarrow> int \<times> int \<Rightarrow> transfer list option" where
  "flush_loop_calls e s i 0 pos = Some []"
| "flush_loop_calls e s i (Suc n) pos = do {
     currFcb \<leftarrow> arr_get (inodes s) (int i);
     cs \<leftarrow> block_write_padded_calls (snd pos) (inodes_memory e s i)
       (int sizeof_fcb) (wrap32 (fst pos * int sizeof_fcb));
     ds \<leftarrow> flush_loop_calls e s (Suc i) n (next_slot s pos);
     Some (cs @ ds) }"

definition flush_calls :: "env \<Rightarrow> fs \<Rightarrow> transfer list option" where
  "flush_calls e s = do {
     len \<leftarrow> checked_int (int BLOCK_SIZE * start_index s);
     cs \<leftarrow> sBlock_write_padded_calls (superblock_bytes (sBlock s) @ after_sBlock e) len;
     limit \<leftarrow> checked_int (n_inodes s - 1);
     ds \<leftarrow> flush_loop_calls e s 0 (nat limit) (0, start_index s);
     Some (cs @ ds) }"

section \<open>A flush is the effect of its transfers\<close>

lemma pwrite_live: "dev_ok e d \<Longrightarrow> 0 \<le> off \<Longrightarrow> pwrite e (live_fd d) f bs off = (int (length bs), file_write (nat off) bs f)"
  using live_fd_ok [of e d] pwrite_ok [of e "live_fd d" f bs "nat off"] by simp

lemma pwrite_negative: "off < 0 \<Longrightarrow> pwrite e fd f bs off = (- 1, f)"
  by (simp add: pwrite_def)

lemma block_write_padded_transferred:
  assumes "dev_ok e d"
  shows "map_option snd (block_write_padded e d n buf sz off) =
    map_option (\<lambda>cs. d\<lparr>disk := transferred cs (disk d)\<rparr>) (block_write_padded_calls n buf sz off)"
proof (cases "block_offset n off")
  case None
  then show ?thesis by (simp add: block_write_padded_def block_write_padded_calls_def)
next
  case (Some p)
  then show ?thesis
    using pwrite_live [OF assms, of p] pwrite_negative [of p]
    by (cases "p < 0") (auto simp: block_write_padded_def block_write_padded_calls_def Let_def not_less)
qed

lemma sBlock_write_padded_transferred:
  assumes "dev_ok e d"
  shows "map_option snd (sBlock_write_padded e d n buf sz) =
    map_option (\<lambda>cs. d\<lparr>disk := transferred cs (disk d)\<rparr>) (sBlock_write_padded_calls buf sz)"
  using pwrite_live [OF assms, of 0] by (simp add: sBlock_write_padded_def sBlock_write_padded_calls_def Let_def)

text \<open>The disk file replaced, and nothing else: what the loops read stays as it is.\<close>

definition with_disk :: "fs \<Rightarrow> byte list \<Rightarrow> fs" where
  "with_disk s f = s\<lparr>dev := (dev s)\<lparr>disk := f\<rparr>\<rparr>"

lemma with_disk_simps [simp]:
  "inodes (with_disk s f) = inodes s" "sBlock (with_disk s f) = sBlock s" "disk (dev (with_disk s f)) = f"
  "with_disk (with_disk s f) g = with_disk s g" "with_disk s (disk (dev s)) = s"
  "dev_ok e (dev (with_disk s f)) = dev_ok e (dev s)" "errno (with_disk s f) = errno s"
  by (simp_all add: with_disk_def dev_ok_def)

lemma loop_reads [simp]:
  "inodes_memory e (with_disk s f) i = inodes_memory e s i" "next_slot (with_disk s f) pos = next_slot s pos"
  "flush_loop_calls e (with_disk s f) i n pos = flush_loop_calls e s i n pos"
proof -
  show m: "inodes_memory e (with_disk s f) i = inodes_memory e s i" for i by (simp add: inodes_memory_def)
  show p: "next_slot (with_disk s f) pos = next_slot s pos" for pos by (simp add: next_slot_def)
  show "flush_loop_calls e (with_disk s f) i n pos = flush_loop_calls e s i n pos"
    by (induction n arbitrary: i pos) (simp_all add: m p)
qed

lemma flush_loop_transferred:
  assumes "dev_ok e (dev s)"
  shows "flush_loop e s i n pos =
    map_option (\<lambda>cs. with_disk s (transferred cs (disk (dev s)))) (flush_loop_calls e s i n pos)"
  using assms
proof (induction n arbitrary: s i pos)
  case 0
  then show ?case by simp
next
  case (Suc n)
  let ?w = "block_write_padded e (dev s) (snd pos) (inodes_memory e s i) (int sizeof_fcb) (wrap32 (fst pos * int sizeof_fcb))"
  let ?c = "block_write_padded_calls (snd pos) (inodes_memory e s i) (int sizeof_fcb) (wrap32 (fst pos * int sizeof_fcb))"
  note w = block_write_padded_transferred [OF Suc.prems, of "snd pos" "inodes_memory e s i" "int sizeof_fcb"
      "wrap32 (fst pos * int sizeof_fcb)"]
  show ?case
  proof (cases ?c)
    case None
    then have "?w = None" using w by simp
    with None show ?thesis by simp
  next
    case (Some cs)
    then obtain r where r: "?w = Some (r, (dev s)\<lparr>disk := transferred cs (disk (dev s))\<rparr>)"
      using w by (cases ?w) auto
    have "s\<lparr>dev := (dev s)\<lparr>disk := f\<rparr>\<rparr> = with_disk s f" for f by (simp add: with_disk_def)
    with r Some Suc.IH [of "with_disk s (transferred cs (disk (dev s)))"] Suc.prems show ?thesis
      by (cases "flush_loop_calls e s (Suc i) n (next_slot s pos)"; cases "arr_get (inodes s) (int i)") simp_all
  qed
qed

lemma flush_transferred:
  assumes "dev_ok e (dev s)"
  shows "flushAllInodesTodisk e False s =
    map_option (\<lambda>cs. (True, with_disk s (transferred cs (disk (dev s))))) (flush_calls e s)"
proof (cases "checked_int (int BLOCK_SIZE * start_index s)")
  case None
  then show ?thesis by (simp add: flushAllInodesTodisk_def flush_calls_def)
next
  case len: (Some len)
  let ?b = "superblock_bytes (sBlock s) @ after_sBlock e"
  note w = sBlock_write_padded_transferred [OF assms, of 0 ?b len]
  show ?thesis
  proof (cases "sBlock_write_padded_calls ?b len")
    case None
    then have "sBlock_write_padded e (dev s) 0 ?b len = None" using w by simp
    with None len show ?thesis by (simp add: flushAllInodesTodisk_def flush_calls_def)
  next
    case (Some cs)
    then obtain r where r: "sBlock_write_padded e (dev s) 0 ?b len = Some (r, (dev s)\<lparr>disk := transferred cs (disk (dev s))\<rparr>)"
      using w by (cases "sBlock_write_padded e (dev s) 0 ?b len") auto
    have "s\<lparr>dev := (dev s)\<lparr>disk := f\<rparr>\<rparr> = with_disk s f" for f by (simp add: with_disk_def)
    with len r Some assms show ?thesis
      by (cases "checked_int (n_inodes s - 1)")
        (simp_all add: flushAllInodesTodisk_def flush_calls_def flush_loop_transferred option.map_comp comp_def
          split: Option.bind_split)
  qed
qed

section \<open>The transfers on a well-formed state\<close>

text \<open>Each range twice: padded, then written.\<close>

definition twice :: "(nat \<times> byte list) list \<Rightarrow> transfer list" where
  "twice ws = concat (map (\<lambda>(off, bs). [(int off, pad_bytes (length bs)), (int off, bs)]) ws)"

lemma twice_simps [simp]:
  "twice [] = []" "twice ((off, bs) # ws) = (int off, pad_bytes (length bs)) # (int off, bs) # twice ws"
  "twice (vs @ ws) = twice vs @ twice ws"
  by (simp_all add: twice_def)

lemma length_twice: "length (twice ws) = 2 * length ws"
  by (induction ws) auto

lemma length_pad [simp]: "length (pad_bytes n) = n"
  by (simp add: pad_bytes_def)

lemma transferred_twice: "transferred (twice ws) f = write_all file_write ws f"
  by (induction ws arbitrary: f) (auto simp: write_all_Cons file_write_write_same)

text \<open>After an even number of transfers some writes are done; after an odd number one more is padded.\<close>

definition torn :: "nat \<times> byte list \<Rightarrow> nat \<times> byte list" where
  "torn w = (fst w, pad_bytes (length (snd w)))"

lemma take_twice: "take (2 * j) (twice ws) = twice (take j ws)"
proof (induction ws arbitrary: j)
  case Nil
  then show ?case by simp
next
  case (Cons w ws)
  then show ?case by (cases j; cases w) simp_all
qed

lemma take_twice_odd:
  assumes "j < length ws"
  shows "take (Suc (2 * j)) (twice ws) = twice (take j ws) @ [(int (fst (ws ! j)), pad_bytes (length (snd (ws ! j))))]"
proof -
  have "ws = take j ws @ ws ! j # drop (Suc j) ws" using assms by (simp add: id_take_nth_drop)
  then have "twice ws = twice (take j ws) @ twice (ws ! j # drop (Suc j) ws)" by (metis twice_simps(3))
  moreover have "length (twice (take j ws)) = 2 * j" using assms by (simp add: length_twice)
  ultimately show ?thesis by (cases "ws ! j") (simp add: take_Suc)
qed

definition crash_writes :: "nat \<Rightarrow> (nat \<times> byte list) list \<Rightarrow> (nat \<times> byte list) list" where
  "crash_writes k ws = take (k div 2) ws @ (if odd k then [torn (ws ! (k div 2))] else [])"

lemma transferred_crash:
  assumes "k \<le> 2 * length ws"
  shows "transferred (take k (twice ws)) f = write_all file_write (crash_writes k ws) f"
proof (cases "even k")
  case True
  then obtain j where "k = 2 * j" by (rule evenE)
  then show ?thesis by (simp add: take_twice transferred_twice crash_writes_def)
next
  case False
  then obtain j where k: "k = Suc (2 * j)" by (metis oddE Suc_eq_plus1)
  then have "j < length ws" using assms by simp
  with k show ?thesis
    by (simp add: take_twice_odd transferred_twice crash_writes_def write_all_append torn_def write_all_Cons)
qed

lemma inode_calls:
  assumes "i < 100" and "length (inodes s) = 100" and "fcb_ok (inodes s ! i)"
  shows "block_write_padded_calls (snd (slot_pos i)) (inodes_memory e s i) (int sizeof_fcb)
      (wrap32 (fst (slot_pos i) * int sizeof_fcb))
    = Some (twice [(slot_offset i, fcb_bytes (inodes_addr e) (inodes s ! i))])"
proof -
  have l: "length (fcb_bytes (inodes_addr e) (inodes s ! i)) = 840"
    using assms(3) by (intro length_fcb_bytes fcb_ok_typed)
  have "take 840 (pad_bytes 4096) = pad_bytes 840" by (simp add: pad_bytes_def)
  then show ?thesis
    using block_offset_slot [OF assms(1)] assms(1,2) l
    by (simp add: block_write_padded_calls_def inodes_memory_Cons)
qed

lemma flush_loop_calls_run:
  assumes "geometry_ok (sBlock s)" and "list_all fcb_ok (inodes s)" and "length (inodes s) = 100" and "i + n \<le> 100"
  shows "flush_loop_calls e s i n (slot_pos i) = Some (twice (inode_writes e (inodes s) i (i + n)))"
  using assms(4)
proof (induction n arbitrary: i)
  case 0
  then show ?case by (simp add: inode_writes_def)
next
  case (Suc n)
  then have i: "i < 100" "Suc i + n \<le> 100" by simp_all
  have "fcb_ok (inodes s ! i)" using assms(2,3) i(1) by (simp add: list_all_length)
  with inode_calls [OF i(1) assms(3) this] Suc.IH [OF i(2)] i(1) assms(1,3) show ?case
    by (simp add: next_slot_pos inode_writes_Cons)
qed

lemma flush_calls_run:
  assumes "fs_inv s" and "env_ok e"
  shows "flush_calls e s = Some (twice (flush_writes e s))"
proof -
  have g: "geometry_ok (sBlock s)" and ok: "list_all fcb_ok (inodes s)" and typed: "superblock_typed (sBlock s)"
    and start: "start_index s = 3"
    using assms(1) by (simp_all add: fs_inv_def geometry_ok_def)
  have l: "length (superblock_image e (sBlock s)) = 12288"
    using typed assms(2) by (simp add: length_superblock_image env_ok_def)
  then have "12288 \<le> length (superblock_bytes (sBlock s) @ after_sBlock e)"
    by (simp add: superblock_image_def)
  moreover have "0 + nat (n_inodes s - 1) \<le> 100" using fs_inv_count [OF assms(1)] by linarith
  note flush_loop_calls_run [OF g ok fs_inv_length [OF assms(1)] this, of e]
  moreover have "checked_int (n_inodes s - 1) = Some (n_inodes s - 1)"
    using fs_inv_n [OF assms(1)] by (intro checked_int_Some) (simp add: int_ok_def)
  moreover have "checked_int 12288 = Some 12288" by (simp add: checked_int_def int_ok_def)
  ultimately show ?thesis
    using l start
    by (simp add: flush_calls_def sBlock_write_padded_calls_def slot_pos_def flush_writes_def)
      (simp add: superblock_image_def)
qed

section \<open>What a crash leaves\<close>

text \<open>The disk file after the first \<open>k\<close> transfers of a flush.\<close>

definition crashed :: "env \<Rightarrow> fs \<Rightarrow> nat \<Rightarrow> byte list option" where
  "crashed e s k = map_option (\<lambda>cs. transferred (take k cs) (disk (dev s))) (flush_calls e s)"

text \<open>How many transfers there are: two for the superblock and two for every inode but the last.\<close>

lemma length_flush_writes: "length (flush_writes e s) = Suc (nat (n_inodes s - 1))"
  by (simp add: flush_writes_def inode_writes_def)

lemma crashed_run:
  assumes "fs_inv s" and "env_ok e" and "k \<le> 2 * Suc (nat (n_inodes s - 1))"
  shows "crashed e s k = Some (write_all file_write (crash_writes k (flush_writes e s)) (disk (dev s)))"
  using assms(3) by (simp add: crashed_def flush_calls_run [OF assms(1,2)] transferred_crash length_flush_writes)

lemma crash_writes_apart:
  assumes "sorted_wrt apart ws" and "k \<le> 2 * length ws"
  shows "sorted_wrt apart (crash_writes k ws)"
proof -
  have t: "sorted_wrt apart (take j ws)" for j using assms(1) by (rule sorted_wrt_take)
  have "apart v (torn (ws ! j))" if v: "v \<in> set (take j ws)" and j: "j < length ws" for v j
  proof -
    obtain i where i: "i < j" "v = ws ! i" using v by (auto simp: in_set_conv_nth)
    have "apart (ws ! i) (ws ! j)" using assms(1) i(1) j by (simp add: sorted_wrt_iff_nth_less)
    then show ?thesis by (simp add: i(2) apart_def torn_def)
  qed
  moreover have "k div 2 < length ws" if "odd k" using that assms(2) by (auto elim: oddE)
  ultimately show ?thesis using t by (simp add: crash_writes_def sorted_wrt_append)
qed

text \<open>
  Cut after an even or an odd number of transfers: the superblock and \<open>j\<close> inodes are written, and
  with \<open>r = 1\<close> the next inode is padded.
\<close>

definition crash_ranges :: "env \<Rightarrow> fs \<Rightarrow> nat \<Rightarrow> nat \<Rightarrow> (nat \<times> byte list) list" where
  "crash_ranges e s j r = (0, superblock_image e (sBlock s)) # inode_writes e (inodes s) 0 j @
     replicate r (slot_offset j, pad_bytes 840)"

lemma take_inode_writes: "j \<le> m \<Longrightarrow> take j (inode_writes e fcbs 0 m) = inode_writes e fcbs 0 j"
  by (simp add: inode_writes_def take_map)

lemma nth_flush_writes:
  assumes "fs_inv s" and "j < nat (n_inodes s - 1)"
  shows "torn (flush_writes e s ! Suc j) = (slot_offset j, pad_bytes 840)"
proof -
  have "j < 100" using assms(2) fs_inv_count [OF assms(1)] by linarith
  then have "length (fcb_bytes (inodes_addr e) (inodes s ! j)) = 840"
    using fs_inv_fcb [OF assms(1)] by (simp add: length_fcb_bytes fcb_ok_typed)
  then show ?thesis using assms(2) by (simp add: flush_writes_def inode_writes_def torn_def)
qed

lemma crash_writes_flush:
  assumes "fs_inv s" and "r < 2" and "j + r \<le> nat (n_inodes s - 1)"
  shows "crash_writes (2 * Suc j + r) (flush_writes e s) = crash_ranges e s j r"
proof -
  have t: "take (Suc j) (flush_writes e s) = (0, superblock_image e (sBlock s)) # inode_writes e (inodes s) 0 j"
    using assms(3) by (simp add: flush_writes_def take_inode_writes)
  have d: "(2 * Suc j + r) div 2 = Suc j" "odd (2 * Suc j + r) = (r = 1)" using assms(2) by (auto simp: less_2_cases_iff)
  show ?thesis
    unfolding crash_writes_def d t
    using assms(2,3) nth_flush_writes [OF assms(1), of j e] by (auto simp: crash_ranges_def less_2_cases_iff)
qed

lemma crashed_ranges:
  assumes "fs_inv s" and "env_ok e" and "r < 2" and "j + r \<le> nat (n_inodes s - 1)"
  shows "crashed e s (2 * Suc j + r) = Some (write_all file_write (crash_ranges e s j r) (disk (dev s)))"
  using crashed_run [OF assms(1,2), of "2 * Suc j + r"] crash_writes_flush [OF assms(1,3,4), of e] assms(3,4)
  by (simp add: less_2_cases_iff)

lemma crash_ranges_apart:
  assumes "fs_inv s" and "env_ok e" and "r < 2" and "j + r \<le> nat (n_inodes s - 1)"
  shows "sorted_wrt apart (crash_ranges e s j r)"
  unfolding crash_writes_flush [OF assms(1,3,4), symmetric]
  using assms(3,4) by (intro crash_writes_apart flush_writes_apart assms) (simp add: length_flush_writes)

lemma crash_read:
  assumes "fs_inv s" and "env_ok e" and "r < 2" and "j + r \<le> nat (n_inodes s - 1)"
    and "(off, bs) \<in> set (crash_ranges e s j r)" and "bs \<noteq> []"
  shows "file_read (length bs) off (write_all file_write (crash_ranges e s j r) d) = bs"
  by (rule disk_store.rd_write_all_same [OF crash_ranges_apart [OF assms(1-4)] assms(5,6)])

lemma crash_superblock:
  assumes "fs_inv s" and "env_ok e" and "r < 2" and "j + r \<le> nat (n_inodes s - 1)"
  shows "file_read 11744 0 (write_all file_write (crash_ranges e s j r) d) = superblock_bytes (sBlock s)"
proof -
  have typed: "superblock_typed (sBlock s)" using assms(1) by (simp add: fs_inv_def geometry_ok_def)
  let ?img = "superblock_image e (sBlock s)"
  have l: "length ?img = 12288" using typed assms(2) by (simp add: length_superblock_image env_ok_def)
  then have "?img \<noteq> []" by auto
  with crash_read [OF assms, where off = 0 and bs = ?img and d = d] l
  have "take 12288 (write_all file_write (crash_ranges e s j r) d) = ?img"
    by (simp add: crash_ranges_def file_read_def)
  then have "take 11744 (take 12288 (write_all file_write (crash_ranges e s j r) d)) = take 11744 ?img" by simp
  then show ?thesis using superblock_image_head [OF typed] by (simp add: file_read_def)
qed

text \<open>An inode of which the bytes are the padding: its name and its parent's name have no end.\<close>

definition torn_fcb :: "c_long \<Rightarrow> fcb" where
  "torn_fcb a = fcb_of_bytes a (pad_bytes 840)"

lemma torn_fcb_unnamed: "cstr (fileName (torn_fcb a)) = None" "cstr (parentDir (torn_fcb a)) = None"
proof -
  have "(0x30 :: byte) \<noteq> byte_of_char NUL" by (simp add: byte_of_char_def)
  then have z: "char_of_byte 0x30 \<noteq> NUL" by (metis byte_of_char_of_byte)
  have "cstr (replicate m (char_of_byte 0x30)) = None" for m by (induction m) (simp_all add: z)
  then show "cstr (fileName (torn_fcb a)) = None" "cstr (parentDir (torn_fcb a)) = None"
    by (simp_all add: torn_fcb_def fcb_of_bytes_def pad_bytes_def member_bytes_def)
qed

lemma crash_inode:
  assumes "fs_inv s" and "mount_ok e" and "r < 2" and "j + r \<le> nat (n_inodes s - 1)" and "holds_last s"
    and "i < nat (n_inodes s)"
  shows "read_inode e (write_all file_write (crash_ranges e s j r) (disk (dev s))) i =
    (if i < j then inodes s ! i else if i < j + r then torn_fcb (inodes_addr e) else read_inode e (disk (dev s)) i)"
proof -
  have env: "env_ok e" using assms(2) by (simp add: mount_ok_def)
  let ?f = "write_all file_write (crash_ranges e s j r) (disk (dev s))"
  note rd = crash_read [OF assms(1) env assms(3,4), where d = "disk (dev s)"]
  have len: "x < nat (n_inodes s) \<Longrightarrow> length (fcb_bytes (inodes_addr e) (inodes s ! x)) = 840"
    and typed: "x < nat (n_inodes s) \<Longrightarrow> fcb_typed (inodes_addr e) (inodes s ! x)" for x
    using fs_inv_fcb [OF assms(1), of x] fs_inv_count [OF assms(1)] by (simp_all add: length_fcb_bytes fcb_ok_typed)
  consider "i < j" | "i = j" "r = 1" | "j + r \<le> i" using assms(3) by linarith
  then show ?thesis
  proof cases
    case 1
    then have "(slot_offset i, fcb_bytes (inodes_addr e) (inodes s ! i)) \<in> set (crash_ranges e s j r)"
      by (auto simp: crash_ranges_def inode_writes_def)
    from rd [OF this] len [OF assms(6)] have "file_read 840 (slot_offset i) ?f = fcb_bytes (inodes_addr e) (inodes s ! i)"
      by force
    then show ?thesis
      using 1 env typed [OF assms(6)] by (simp add: read_inode_def fcb_of_fcb_bytes env_ok_def)
  next
    case 2
    then have "(slot_offset j, pad_bytes 840) \<in> set (crash_ranges e s j r)" by (simp add: crash_ranges_def)
    from rd [OF this] have "file_read 840 (slot_offset j) ?f = pad_bytes 840"
      by (simp add: pad_bytes_def)
    then show ?thesis using 2 by (simp add: read_inode_def torn_fcb_def)
  next
    case 3
    have "fst w + length (snd w) \<le> slot_offset i" if w: "w \<in> set (crash_ranges e s j r)" for w
    proof -
      have "w = (0, superblock_image e (sBlock s)) \<or>
          (\<exists>x<j + r. fst w = slot_offset x \<and> length (snd w) = 840)"
      proof -
        consider "w = (0, superblock_image e (sBlock s))" | "w \<in> set (inode_writes e (inodes s) 0 j)"
          | "w = (slot_offset j, pad_bytes 840)" "r = 1"
          using w assms(3) by (auto simp: crash_ranges_def less_2_cases_iff)
        then show ?thesis
        proof cases
          case 1
          then show ?thesis by simp
        next
          case 2
          then obtain x where x: "x < j" "w = (slot_offset x, fcb_bytes (inodes_addr e) (inodes s ! x))"
            by (auto simp: inode_writes_def)
          then have "length (snd w) = 840" using len [of x] 3 assms(6) by simp
          moreover have "x < j + r" using x(1) by simp
          ultimately show ?thesis using x(2) by auto
        next
          case 3
          then show ?thesis by auto
        qed
      qed
      moreover have "slot_offset x + 840 \<le> slot_offset i" if "x < j + r" for x
        using that 3 by (intro slot_offset_mono) simp
      ultimately show ?thesis using slot_offset_start [of i] by (auto simp: superblock_image_def)
    qed
    moreover have "i < nat (n_inodes s) - 1 \<or> i = nat (n_inodes s) - 1" using assms(6) by linarith
    then have "slot_offset i \<le> slot_offset (nat (n_inodes s) - 1)"
      using slot_offset_mono [of i "nat (n_inodes s) - 1"] by auto
    then have "slot_offset i + 840 \<le> length (disk (dev s))" using assms(5) by (simp add: holds_last_def)
    ultimately have "file_read 840 (slot_offset i) ?f = file_read 840 (slot_offset i) (disk (dev s))"
      by (intro disk_store.rd_write_all_other) auto
    then show ?thesis using 3 by (simp add: read_inode_def)
  qed
qed

section \<open>Mounting it\<close>

lemma crash_mount:
  assumes "fs_inv s" and "mount_ok e" and "r < 2" and "j + r \<le> nat (n_inodes s - 1)" and "holds_last s"
    and "f = write_all file_write (crash_ranges e s j r) (disk (dev s))"
  shows "sfs_init e (fs0 f) = Some (loaded e 0 (nat (n_inodes s)) ((opened e f)\<lparr>sBlock := sBlock s\<rparr>))"
proof -
  have env: "env_ok e" using assms(2) by (simp add: mount_ok_def)
  have g: "geometry_ok (sBlock s)" using assms(1) by (simp add: fs_inv_def)
  have t: "take 11744 f = superblock_bytes (sBlock s)"
    using crash_superblock [OF assms(1) env assms(3,4)] by (simp add: assms(6) file_read_def)
  then have sb: "superblock_of_bytes (take 11744 f) = sBlock s"
    using g by (simp add: geometry_ok_def superblock_of_superblock_bytes)
  have "length (take 11744 f) = 11744" unfolding t using g by (simp add: geometry_ok_def length_superblock_bytes)
  then have "11744 \<le> length f" by simp
  moreover have "length (disk (dev s)) \<le> length f" unfolding assms(6) by (rule disk_store.extent_write_all)
  then have "slot_offset (nat (n_inodes s) - 1) + 840 \<le> length f" using assms(5) by (simp add: holds_last_def)
  ultimately show ?thesis
    using sfs_init_load [OF assms(2), of f "nat (n_inodes s)"] g by (simp add: sb)
qed

text \<open>Cut between the padding of the superblock and its data: the count is four characters \<open>'0'\<close>.\<close>

lemma padded_count: "numInodes (superblock_of_bytes (pad_bytes 11744)) = 0x30303030"
proof -
  have "member_bytes 4 4 (pad_bytes 11744) = pad_bytes 4" by (simp add: pad_bytes_def member_bytes_def)
  moreover have "pad_bytes 4 = [0x30, 0x30, 0x30, 0x30]" by (simp add: pad_bytes_def numeral_eq_Suc)
  ultimately show ?thesis by (simp add: superblock_of_bytes_def le_word_def)
qed

lemma crash_padded:
  assumes "fs_inv s" and "mount_ok e" and "crashed e s 1 = Some f"
  shows "sfs_init e (fs0 f) = None"
proof -
  have env: "env_ok e" using assms(2) by (simp add: mount_ok_def)
  have "superblock_typed (sBlock s)" using assms(1) by (simp add: fs_inv_def geometry_ok_def)
  then have "length (superblock_image e (sBlock s)) = 12288"
    using env by (simp add: length_superblock_image env_ok_def)
  moreover have "crash_writes 1 (flush_writes e s) = [torn (flush_writes e s ! 0)]" by (simp add: crash_writes_def)
  ultimately have f: "f = file_write 0 (pad_bytes 12288) (disk (dev s))"
    using crashed_run [OF assms(1) env, of 1] assms(3) by (simp add: torn_def flush_writes_def write_all_Cons)
  have "take 11744 (pad_bytes 12288) = pad_bytes 11744" by (simp add: pad_bytes_def)
  moreover have "take 12288 f = pad_bytes 12288"
    using file_read_write_same [of "pad_bytes 12288" 0 "disk (dev s)"] by (simp add: f file_read_def)
  then have "take 11744 (take 12288 f) = take 11744 (pad_bytes 12288)" by simp
  ultimately have t: "take 11744 f = pad_bytes 11744" by simp
  then have "length (take 11744 f) = 11744" by simp
  then have "11744 \<le> length f" by simp
  then show ?thesis using t padded_count by (intro sfs_init_overrun [OF assms(2)]) simp_all
qed

text \<open>
  A change that is cut short when everything before it was on the disk file: the new inodes below
  \<open>j\<close> beside the old ones, under the new bitmap.
\<close>

definition in_sync :: "env \<Rightarrow> fs \<Rightarrow> bool" where
  "in_sync e s \<longleftrightarrow> (\<forall>x < nat (n_inodes s). read_inode e (disk (dev s)) x = inodes s ! x)"

lemma crash_synced_mount:
  assumes "fs_inv s" and "fs_inv c" and "mount_ok e" and "holds_last c"
    and "n_inodes c = n_inodes s" and "dev c = dev s" and "in_sync e s" and "j \<le> nat (n_inodes c - 1)"
    and "0 < n_inodes s" and "crashed e c (2 * Suc j) = Some f"
  obtains u where "sfs_init e (fs0 f) = Some u" and "fs_inv u" and "n_inodes u = n_inodes s"
    and "ibmap (sBlock u) = ibmap (sBlock c)"
    and "\<And>x. x < nat (n_inodes s) \<Longrightarrow> inodes u ! x = (if x < j then inodes c ! x else inodes s ! x)"
proof -
  have env: "env_ok e" using assms(3) by (simp add: mount_ok_def)
  have j: "j + 0 \<le> nat (n_inodes c - 1)" using assms(8) by simp
  have f: "f = write_all file_write (crash_ranges e c j 0) (disk (dev c))"
    using crashed_ranges [OF assms(2) env _ j] assms(10) by simp
  let ?u = "loaded e 0 (nat (n_inodes c)) ((opened e f)\<lparr>sBlock := sBlock c\<rparr>)"
  have u: "sfs_init e (fs0 f) = Some ?u" by (rule crash_mount [OF assms(2,3) _ j assms(4) f]) simp
  have n: "nat (n_inodes s) \<le> 100" by (rule fs_inv_count [OF assms(1)])
  have rd: "read_inode e f x = (if x < j then inodes c ! x else inodes s ! x)" if "x < nat (n_inodes s)" for x
    using crash_inode [OF assms(2,3) _ j assms(4), of x] that assms(5-7) f by (simp add: in_sync_def)
  have at: "inodes ?u ! x = (if x < j then inodes c ! x else inodes s ! x)" if "x < nat (n_inodes s)" for x
    using rd [OF that] that n assms(5) by (simp add: loaded_def Let_def)
  have "fcb_ok (inodes s ! x) \<and> fcb_ok (inodes c ! x)" if "x < nat (n_inodes s)" for x
    using fs_inv_fcb [OF assms(1)] fs_inv_fcb [OF assms(2)] n that by simp
  moreover have "number_ok (parent_inumber (inodes s ! x)) \<and> number_ok (parent_inumber (inodes c ! x))"
    if "x < nat (n_inodes s)" "0 < x" for x
    using fs_inv_parent [OF assms(1)] fs_inv_parent [OF assms(2)] n that by simp
  moreover have "cstr (fileName (inodes s ! 0)) = Some ''/''" "cstr (fileName (inodes c ! 0)) = Some ''/''"
    using assms(1,2) by (simp_all add: fs_inv_def)
  ultimately have "image_ok e f (nat (n_inodes s))" using rd assms(9) by (auto simp: image_ok_def)
  then have inv: "fs_inv ?u"
    using loaded_inv [of "sBlock c" e f "nat (n_inodes c)"] assms(2,5) n by (simp add: fs_inv_def)
  have "n_inodes ?u = n_inodes s" "ibmap (sBlock ?u) = ibmap (sBlock c)"
    using assms(5) by (simp_all add: loaded_def Let_def)
  then show ?thesis using that [OF u inv] at by blast
qed

end
