(* ===== verification/Crash_Properties.thy ===== *)
theory Crash_Properties
  imports Crash Example_State
begin

text \<open>
  What the next mount makes of a disk file when the process dies in the middle of a flush. All but
  one of the points at which it can die leave a disk file that mounts, to a mixture of what was
  before the flush and what should be after it.
\<close>

section \<open>When the disk file still mounts\<close>

text \<open>C11: A flush that is cut short after its first transfer, with the superblock padded and not yet
  written, leaves a disk file whose mount is undefined: the padding counts more than a hundred inodes. Cut after
  any other number of transfers the disk file mounts.\<close>

theorem crash_mountable_iff:
  assumes "fs_inv s" and "mount_ok e" and "holds_last s"
    and "0 < k" and "k \<le> 2 * Suc (nat (n_inodes s - 1))" and "crashed e s k = Some f"
  shows "sfs_init e (fs0 f) = None \<longleftrightarrow> k = 1"
proof (cases "k = 1")
  case True
  then show ?thesis using crash_padded [OF assms(1,2)] assms(6) by simp
next
  case False
  have env: "env_ok e" using assms(2) by (simp add: mount_ok_def)
  define j r where "j = k div 2 - 1" and "r = k mod 2"
  have k: "k = 2 * Suc j + r" and r: "r < 2"
    using False assms(4) unfolding j_def r_def by presburger+
  have jr: "j + r \<le> nat (n_inodes s - 1)" using assms(5) r unfolding k by (auto simp: less_2_cases_iff)
  have "f = write_all file_write (crash_ranges e s j r) (disk (dev s))"
    using crashed_ranges [OF assms(1) env r jr] assms(6) k by simp
  from crash_mount [OF assms(1,2) r jr assms(3) this] False show ?thesis by simp
qed

theorem crash_mountable_iff_witness:
  "\<exists>f g. crashed demo_env demo_file_fs 1 = Some f \<and> sfs_init demo_env (fs0 f) = None \<and>
    crashed demo_env demo_file_fs 4 = Some g \<and> sfs_init demo_env (fs0 g) \<noteq> None"
proof -
  obtain f g where "crashed demo_env demo_file_fs 1 = Some f" "crashed demo_env demo_file_fs 4 = Some g"
    using crashed_run [OF demo_file_inv demo_env_ok, of 1] crashed_run [OF demo_file_inv demo_env_ok, of 4]
    by (simp add: demo_file_n)
  then show ?thesis
    using crash_mountable_iff [OF demo_file_inv demo_mount_ok demo_file_holds_last, of 1 f]
      crash_mountable_iff [OF demo_file_inv demo_mount_ok demo_file_holds_last, of 4 g]
    by (simp add: demo_file_n)
qed

section \<open>What it mounts to\<close>

lemma crash_mixture:
  assumes "fs_inv s" and "mount_ok e" and "holds_last s" and "r < 2" and "j + r \<le> nat (n_inodes s - 1)"
    and "crashed e s (2 * Suc j + r) = Some f"
  shows "\<exists>u. sfs_init e (fs0 f) = Some u \<and> length (inodes u) = 100 \<and> n_inodes u = n_inodes s \<and> ibmap (sBlock u) = ibmap (sBlock s) \<and>
    (\<forall>i < nat (n_inodes s). if i < j then inodes u ! i = inodes s ! i
      else if i < j + r then cstr (fileName (inodes u ! i)) = None
      else inodes u ! i = read_inode e (disk (dev s)) i)"
proof -
  have env: "env_ok e" using assms(2) by (simp add: mount_ok_def)
  have f: "f = write_all file_write (crash_ranges e s j r) (disk (dev s))"
    using crashed_ranges [OF assms(1) env assms(4,5)] assms(6) by simp
  note n = fs_inv_count [OF assms(1)]
  let ?u = "loaded e 0 (nat (n_inodes s)) ((opened e f)\<lparr>sBlock := sBlock s\<rparr>)"
  have at: "inodes ?u ! i = read_inode e f i" if "i < nat (n_inodes s)" for i
    using that n by (simp add: loaded_def Let_def)
  have "if i < j then inodes ?u ! i = inodes s ! i
      else if i < j + r then cstr (fileName (inodes ?u ! i)) = None
      else inodes ?u ! i = read_inode e (disk (dev s)) i" if i: "i < nat (n_inodes s)" for i
    using at [OF i] crash_inode [OF assms(1,2,4,5,3) i] f torn_fcb_unnamed by simp
  moreover have "length (inodes ?u) = 100" "n_inodes ?u = n_inodes s" "ibmap (sBlock ?u) = ibmap (sBlock s)" by (simp_all add: loaded_def Let_def)
  ultimately show ?thesis using crash_mount [OF assms(1,2,4,5,3) f] by blast
qed

text \<open>C12: A flush cut short after the superblock and \<open>j\<close> inodes, with or without the padding of the next
  one, is mounted with the new bitmap and count, the new inodes below \<open>j\<close>, and from there on the inodes of the
  disk file before the flush; an inode that was padded and not written has a name without an end.\<close>

theorem crash_leaves_mix:
  assumes "fs_inv s" and "mount_ok e" and "holds_last s" and "r < 2" and "j + r \<le> nat (n_inodes s - 1)"
    and "crashed e s (2 * Suc j + r) = Some f"
  shows "\<exists>u. sfs_init e (fs0 f) = Some u \<and> n_inodes u = n_inodes s \<and> ibmap (sBlock u) = ibmap (sBlock s) \<and>
    (\<forall>i < nat (n_inodes s). if i < j then inodes u ! i = inodes s ! i
      else if i < j + r then cstr (fileName (inodes u ! i)) = None
      else inodes u ! i = read_inode e (disk (dev s)) i)"
  using crash_mixture [OF assms] by blast

theorem crash_leaves_mix_witness:
  "\<exists>f u. crashed demo_env demo_file_fs 5 = Some f \<and> sfs_init demo_env (fs0 f) = Some u \<and>
    inodes u ! 0 = inodes demo_file_fs ! 0 \<and> cstr (fileName (inodes u ! 1)) = None"
proof -
  obtain f where f: "crashed demo_env demo_file_fs 5 = Some f"
    using crashed_run [OF demo_file_inv demo_env_ok, of 5] by (simp add: demo_file_n)
  from crash_leaves_mix [OF demo_file_inv demo_mount_ok demo_file_holds_last, of 1 1 f] f obtain u where
    u: "sfs_init demo_env (fs0 f) = Some u"
    and at: "\<forall>i < nat 6. if i < 1 then inodes u ! i = inodes demo_file_fs ! i
      else if i < 1 + 1 then cstr (fileName (inodes u ! i)) = None
      else inodes u ! i = read_inode demo_env (disk (dev demo_file_fs)) i"
    unfolding demo_file_n by auto
  have "inodes u ! 0 = inodes demo_file_fs ! 0" "cstr (fileName (inodes u ! 1)) = None"
    using at [rule_format, of 0] at [rule_format, of 1] by simp_all
  with f u show ?thesis by blast
qed

section \<open>A creation that is cut short\<close>

text \<open>C13: Creations are not atomic: when the process dies in the flush of a creation after the inodes
  below some \<open>j\<close>, not above the new one, the mounted file system does not know the path, but has its number marked as
  used, and the directories below \<open>j\<close> have the new entry, which leads to the inode's old contents.\<close>

theorem create_not_crash_atomic:
  assumes "fs_inv s" and "mount_ok e" and "dev_ok e (dev s)" and "path_fits e p" and "holds_last s"
    and "in_sync e s" and "findFileOrDir e s p = Some Null"
    and "create_inode e s p m = Some (Inode i, t)" and "j \<le> i"
    and "crashed e (t\<lparr>dev := dev s\<rparr>) (2 * Suc j) = Some f"
  shows "\<exists>u. sfs_init e (fs0 f) = Some u \<and> findFileOrDir e u p = Some Null \<and> ibmap (sBlock u) ! i = 1 \<and>
    (\<forall>x < nat (n_inodes s). inodes u ! x = (if x < j then inodes t ! x else inodes s ! x))"
proof -
  have env: "env_ok e" using assms(2) by (simp add: mount_ok_def)
  from create_inode_SomeE [OF assms(1) env assms(3,4,8)] obtain k q where
    t: "t = flushed e (created e s (relativeName p) q m k i)"
    and inv: "fs_inv (created e s (relativeName p) q m k i)" and i: "i < 100" "i < nat (n_inodes s)" .
  let ?c = "created e s (relativeName p) q m k i"
  have c: "dev ?c = dev s" "n_inodes ?c = n_inodes s" "inodes ?c = inodes t" "ibmap (sBlock ?c) = (ibmap (sBlock s))[i := 1]"
    by (simp_all add: created_def t)
  have "t\<lparr>dev := dev s\<rparr> = ?c" by (simp add: t created_def flushed_def)
  with assms(10) have cr: "crashed e ?c (2 * Suc j) = Some f" by (simp only:)
  have pos: "0 < n_inodes s" using i(2) by linarith
  have "holds_last ?c" "j \<le> nat (n_inodes ?c - 1)" using assms(5,9) i(2) c by (simp_all add: holds_last_def)
  from crash_synced_mount [OF assms(1) inv assms(2) this(1) c(2,1) assms(6) this(2) pos cr] obtain u where
    u: "sfs_init e (fs0 f) = Some u" and inv_u: "fs_inv u" and n: "n_inodes u = n_inodes s"
    and bm: "ibmap (sBlock u) = ibmap (sBlock ?c)"
    and at: "\<And>x. x < nat (n_inodes s) \<Longrightarrow> inodes u ! x = (if x < j then inodes ?c ! x else inodes s ! x)"
    by blast
  have old: "fileName (inodes ?c ! x) = fileName (inodes s ! x)" "parentDir (inodes ?c ! x) = parentDir (inodes s ! x)"
    if "x < j" for x
    using that assms(9) by (simp_all add: created_def link_inodes_names)
  have names: "fileName (inodes u ! x) = fileName (inodes s ! x)" "parentDir (inodes u ! x) = parentDir (inodes s ! x)"
    if "x < nat (n_inodes s)" for x
    using at [OF that] old [of x] by (cases "x < j"; simp only: simp_thms if_True if_False)+
  have "cstring p" using assms(4) by (simp add: path_fits_def)
  then have "findFileOrDir e u p = findFileOrDir e s p"
    using findFileOrDir_cong [OF inv_u assms(1)] names n by simp
  moreover have "i < length (ibmap (sBlock s))"
    using assms(1) i(1) by (simp add: fs_inv_def geometry_ok_def superblock_typed_def)
  ultimately show ?thesis using u bm assms(7) at c(3,4) by auto
qed

text \<open>A listing reads every name in front of the first unused slot.\<close>

lemma readdir_loop_unnamed:
  assumes "x \<le> j" and "j < length dc" and "dc ! j = Inode i" and "i < length (inodes u)"
    and "cstr (fileName (inodes u ! i)) = None" and "\<forall>l<j. dc ! l \<noteq> Null"
  shows "readdir_loop u dc x = None"
  using assms(1)
proof (induction rule: inc_induct)
  case base
  then show ?case using assms(2-5) by (simp add: readdir_loop.simps [of _ _ j] arr_get_def)
next
  case (step l)
  then show ?case using assms(2,6) by (simp add: readdir_loop.simps [of _ _ l] arr_get_def Option.bind_eq_None_conv)
qed

text \<open>C14: Worse, when the process dies after the padding of the new inode and before its data: the root, written before, lists
  the new inode, whose name is 256 characters \<open>0\<close> without an end. The disk file can be mounted, and the
  first listing of the root reads behind that name.\<close>

theorem crash_listing_undefined:
  assumes "fs_inv s" and "mount_ok e" and "dev_ok e (dev s)" and "path_fits e p" and "holds_last s"
    and "getRelativeParentName e (Some p) = Some ''/''" and "Null \<in> set (dirContents (inodes s ! 0))"
    and "create_inode e s p m = Some (Inode i, t)" and "int i < n_inodes s - 1"
    and "crashed e (t\<lparr>dev := dev s\<rparr>) (2 * Suc i + 1) = Some f"
  shows "\<exists>u. sfs_init e (fs0 f) = Some u \<and> sfs_readdir e u ''/'' = None"
proof -
  have env: "env_ok e" using assms(2) by (simp add: mount_ok_def)
  from create_inode_SomeE [OF assms(1) env assms(3,4,8)] obtain k q where
    t: "t = flushed e (created e s (relativeName p) q m k i)"
    and inv: "fs_inv (created e s (relativeName p) q m k i)" and i: "0 < i" "i < 100"
    and q: "getRelativeParentName e (Some p) = Some q" "create_parent e s p q = Some (Inode k)" .
  let ?c = "created e s (relativeName p) q m k i" and ?dc = "dirContents (inodes s ! 0)"
  have k: "k = 0" using q assms(6) findRoot_inv [OF assms(1)] by (simp add: create_parent_def)
  have l: "length (inodes s) = 100" by (rule fs_inv_length [OF assms(1)])
  have c: "dev ?c = dev s" "n_inodes ?c = n_inodes s" "dirContents (inodes ?c ! 0) = put_entry i ?dc"
    using i(1) l by (simp_all add: created_def link_inodes_def k)
  have "t\<lparr>dev := dev s\<rparr> = ?c" by (simp add: t created_def flushed_def)
  with assms(10) have cr: "crashed e ?c (2 * Suc i + 1) = Some f" by (simp only:)
  have "holds_last ?c" "i + 1 \<le> nat (n_inodes ?c - 1)" using assms(5,9) c by (simp_all add: holds_last_def)
  from crash_mixture [OF inv assms(2) this(1) _ this(2) cr] obtain u where
    u: "sfs_init e (fs0 f) = Some u" "length (inodes u) = 100"
    and at: "\<And>x. x < nat (n_inodes s) \<Longrightarrow> if x < i then inodes u ! x = inodes ?c ! x
      else if x < i + 1 then cstr (fileName (inodes u ! x)) = None
      else inodes u ! x = read_inode e (disk (dev ?c)) x" by (auto simp: c(2))
  have root: "dirContents (inodes u ! 0) = put_entry i ?dc" and torn: "cstr (fileName (inodes u ! i)) = None"
    using at [of 0] at [of i] i(1) assms(9) c(3) by auto
  have dl: "length ?dc = 30" using fcb_ok_dir_length [OF fs_inv_fcb [OF assms(1)], of 0] by simp
  obtain j where j: "j < 30" "put_entry i ?dc = ?dc[j := Inode i]" "\<forall>x<j. ?dc ! x \<noteq> Null"
    by (rule put_entry_room [OF dl assms(7)])
  have "readdir_loop u (dirContents (inodes u ! 0)) 0 = None"
    unfolding root using j dl u(2) i(2) torn by (intro readdir_loop_unnamed [of 0 j _ i]) simp_all
  then have "sfs_readdir e u ''/'' = None"
    using u(2) by (simp add: sfs_readdir_def findFileOrDir_def findRootOrDieTrying_def inode_address_def)
  with u(1) show ?thesis by blast
qed

lemma fcb_of_zeros: "fcb_of_bytes a (replicate 840 0) = fcb0"
proof -
  have "char_of_byte 0 = NUL" using char_of_byte_of_char [of NUL] by (simp add: byte_of_char_def)
  moreover have "ptr_of_value a 0 = Null" by (simp add: ptr_of_value_def)
  moreover have "chunks 8 30 (replicate 240 (0 :: byte)) = replicate 30 (replicate 8 0)"
    by (simp add: numeral_eq_Suc)
  ultimately show ?thesis by (simp add: fcb_of_bytes_def member_bytes_def fcb0_def le_word_zeros)
qed

lemma demo_sync: "in_sync demo_env demo_file_fs"
proof -
  have "read_inode demo_env (disk (dev demo_file_fs)) x = inodes demo_file_fs ! x" if "x < 6" for x
  proof (cases "x < 5")
    case True
    then show ?thesis
      using read_inode_flushed [of "created demo_env demo_fs ''a'' ''/'' 33188 0 1" demo_env x] demo_file_inv demo_env_ok
        demo_file_n by (simp add: demo_file_fs_def)
  next
    case False
    then have "x = 5" using that by simp
    then show ?thesis
      using demo_file_last_slot
      by (simp add: read_inode_def fcb_of_zeros demo_file_fs_def created_def link_inodes_def demo_inodes)
  qed
  then show ?thesis by (simp add: in_sync_def demo_file_n)
qed

lemma demo_new_b: "path_fits demo_env ''/b''" "findFileOrDir demo_env demo_file_fs ''/b'' = Some Null"
  "\<exists>t. create_inode demo_env demo_file_fs ''/b'' 33188 = Some (Inode 2, t)"
proof -
  have q: "getRelativeParentName demo_env (Some ''/b'') = Some ''/''" by (simp add: getRelativeParentName_def demo_env_def)
  show fits: "path_fits demo_env ''/b''"
    by (simp add: path_fits_def cstring_def relativeName_def getRelativeParentName_def demo_env_def)
  have "relativeName ''/b'' = ''b''" by (simp add: relativeName_def)
  then show "findFileOrDir demo_env demo_file_fs ''/b'' = Some Null"
    by (intro demo_file_none) (simp_all add: cstring_def)
  show "\<exists>t. create_inode demo_env demo_file_fs ''/b'' 33188 = Some (Inode 2, t)"
    by (rule demo_create_second [OF fits q])
qed

theorem create_not_crash_atomic_witness:
  "\<exists>t f u. create_inode demo_env demo_file_fs ''/b'' 33188 = Some (Inode 2, t) \<and>
    crashed demo_env (t\<lparr>dev := dev demo_file_fs\<rparr>) 4 = Some f \<and> sfs_init demo_env (fs0 f) = Some u \<and>
    findFileOrDir demo_env u ''/b'' = Some Null \<and> ibmap (sBlock u) ! 2 = 1 \<and> inodes u ! 0 = inodes t ! 0"
proof -
  obtain t where t: "create_inode demo_env demo_file_fs ''/b'' 33188 = Some (Inode 2, t)" using demo_new_b(3) by blast
  from create_inode_SomeE [OF demo_file_inv demo_env_ok demo_file_dev_ok demo_new_b(1) t] obtain k q where
    c: "t = flushed demo_env (created demo_env demo_file_fs (relativeName ''/b'') q 33188 k 2)"
    and inv: "fs_inv (created demo_env demo_file_fs (relativeName ''/b'') q 33188 k 2)" .
  have "t\<lparr>dev := dev demo_file_fs\<rparr> = created demo_env demo_file_fs (relativeName ''/b'') q 33188 k 2"
    by (simp add: c created_def flushed_def)
  with inv have "fs_inv (t\<lparr>dev := dev demo_file_fs\<rparr>)" by (simp only:)
  moreover have "n_inodes (t\<lparr>dev := dev demo_file_fs\<rparr>) = 6" using demo_file_n by (simp add: c created_def)
  ultimately obtain f where f: "crashed demo_env (t\<lparr>dev := dev demo_file_fs\<rparr>) 4 = Some f"
    using crashed_run [OF _ demo_env_ok, of "t\<lparr>dev := dev demo_file_fs\<rparr>" 4] by simp
  from create_not_crash_atomic [OF demo_file_inv demo_mount_ok demo_file_dev_ok demo_new_b(1) demo_file_holds_last
      demo_sync demo_new_b(2) t, of 1 f] f
  show ?thesis using t by (fastforce simp: demo_file_n)
qed

theorem crash_listing_undefined_witness:
  "\<exists>t f u. create_inode demo_env demo_fs ''/a'' 33188 = Some (Inode 1, t) \<and>
    crashed demo_env (t\<lparr>dev := dev demo_fs\<rparr>) 5 = Some f \<and> sfs_init demo_env (fs0 f) = Some u \<and>
    sfs_readdir demo_env u ''/'' = None"
proof -
  from create_inode_SomeE [OF demo_inv demo_env_ok demo_dev_ok demo_path_fits demo_create] obtain k q where
    c: "demo_file_fs = flushed demo_env (created demo_env demo_fs (relativeName ''/a'') q 33188 k 1)"
    and inv: "fs_inv (created demo_env demo_fs (relativeName ''/a'') q 33188 k 1)" .
  have "demo_file_fs\<lparr>dev := dev demo_fs\<rparr> = created demo_env demo_fs (relativeName ''/a'') q 33188 k 1"
    unfolding c by (simp add: created_def flushed_def)
  with inv have "fs_inv (demo_file_fs\<lparr>dev := dev demo_fs\<rparr>)" by (simp only:)
  then obtain f where f: "crashed demo_env (demo_file_fs\<lparr>dev := dev demo_fs\<rparr>) 5 = Some f"
    using crashed_run [OF _ demo_env_ok, of "demo_file_fs\<lparr>dev := dev demo_fs\<rparr>" 5] by (simp add: demo_file_n)
  from crash_listing_undefined [OF demo_inv demo_mount_ok demo_dev_ok demo_path_fits demo_holds_last demo_parent_name
      _ demo_create _, of f] f
  show ?thesis using demo_create by (fastforce simp: demo_n demo_root_dir)
qed

end
