(* ===== verification/Command_Line.thy ===== *)
theory Command_Line
  imports Log
begin

text \<open>
  The start of the program (\<open>main\<close> of \<open>src/src/sfs.c\<close>) up to the call of \<open>fuse_main\<close>: the checks of the
  arguments, the allocation, the disk file that is taken out of the arguments, and the log file.
\<close>

definition begins_dash :: "string \<Rightarrow> bool" where
  "begins_dash a \<longleftrightarrow> (case a of [] \<Rightarrow> False | c # cs \<Rightarrow> c = CHR ''-'')"

text \<open>
  The result is what FUSE and the callbacks are left with: the name of the disk file, the arguments, and the
  text of the log so far; \<open>opened\<close> says whether \<open>fopen\<close> gave a log file. \<open>None\<close> is an end of the process: \<open>sfs_usage\<close>
  prints and aborts, so does \<open>main\<close> after a refused allocation, and \<open>log_open\<close> exits without a log file.
\<close>

definition main :: "env \<Rightarrow> bool \<Rightarrow> string list \<Rightarrow> (string \<times> string list \<times> string) option" where
  "main e opened argv =
     (let argc = length argv in
      if argc < 3 \<or> begins_dash (argv ! (argc - 2)) \<or> begins_dash (argv ! (argc - 1)) then None
      else if \<not> alloc_ok e 16 then None
      else
        let diskFile = argv ! (argc - 2);
            argv' = argv[argc - 2 := argv ! (argc - 1)]
        in do {
          log \<leftarrow> log_open opened;
          Some (diskFile, take (argc - 1) argv', log) })"

lemma main_snoc:
  assumes "alloc_ok e 16"
  shows "main e opened (xs @ [f, m]) = (if xs = [] \<or> begins_dash f \<or> begins_dash m \<or> \<not> opened then None
    else Some (f, xs @ [m], []))"
  using assms by (cases xs) (simp_all add: main_def log_open_def Let_def nth_append list_update_append)

lemma last_two:
  assumes "\<not> length argv < 2"
  obtains xs f m where "argv = xs @ [f, m]"
proof -
  obtain ys m where m: "argv = ys @ [m]" using assms by (cases argv rule: rev_cases) auto
  obtain xs f where "ys = xs @ [f]" using assms m by (cases ys rule: rev_cases) auto
  with m show ?thesis using that [of xs f m] by simp
qed

text \<open>The command line ends in the disk file and the mount point: the first goes to the program and is
  taken out of the arguments, which otherwise reach FUSE in their order. With fewer than two
  arguments, if one of the last two begins with a dash, or without a log file, the program gives up.\<close>

lemma main_arguments:
  assumes "alloc_ok e 16"
  shows "main e opened argv = Some (file, args, log) \<longleftrightarrow> opened \<and> log = [] \<and>
    (\<exists>prog opts mount. argv = prog # opts @ [file, mount] \<and> args = prog # opts @ [mount] \<and>
      \<not> begins_dash file \<and> \<not> begins_dash mount)"
proof (cases "length argv < 2")
  case True
  then show ?thesis by (auto simp: main_def Let_def)
next
  case False
  then obtain xs f m where a: "argv = xs @ [f, m]" by (rule last_two)
  show ?thesis using main_snoc [OF assms, of opened xs f m] by (cases xs) (auto simp: a)
qed

end
