(* ===== verification/Spec2Isabelle.thy ===== *)
theory Spec2Isabelle
  imports Storage_Properties Naming_Properties Mount_Properties Lifecycle_Properties
    Interleaving_Properties Log_Properties Crash_Properties Command_Line
begin

text \<open>
  SimpelDateisystem: a toy file system in C on FUSE. The program keeps an array of inodes
  (file control blocks) and a superblock in memory, answers the callbacks of FUSE from them,
  and writes them to one disk file, all of them after each creation and removal and once more
  when it is unmounted. File contents are not stored.

  The parts and how they interact. \<open>main\<close> of \<open>src/src/sfs.c\<close> takes the disk file off the
  command line and hands the table \<open>sfs_oper\<close> to FUSE. \<open>sfs_init\<close> opens the disk file through
  \<open>src/src/block.c\<close> and either loads the superblock and the inodes or calls \<open>formatDisk\<close> of
  \<open>src/src/DateiSteuerBlock.c\<close>. Every later callback works on the arrays in memory:
  \<open>findFileOrDir\<close> searches the inodes for a path, \<open>create_inode\<close> takes a free number and links
  it into the entries of its parent, \<open>remove_inode\<close> unlinks it. \<open>sfs_destroy\<close> calls
  \<open>flushAllInodesTodisk\<close>; nothing calls \<open>disk_close\<close>.

  The theories, in the order of the calls, and what each group of lemmas shows.
  \<^item> \<open>C_Prelude\<close>: machine integers of the LP64 build, arrays with a checked index, C strings in
    character arrays, little-endian encodings, the collections of simplification rules.
  \<^item> \<open>Platform\<close>: the surroundings as one record \<open>env\<close>; a regular file with \<open>pread\<close> and \<open>pwrite\<close>.
  \<^item> \<open>Object_Rep\<close>: the locale \<open>object_rep\<close>, the contract between a structure and its bytes, and
    arrays of such structures; interpreted in \<open>Knoten\<close> on the superblock and on inodes.
  \<^item> \<open>Block_Device\<close> (\<open>block.c\<close>): the record \<open>device\<close> and one function per function of the
    file. The locale \<open>byte_store\<close> states what the flush relies on: writes that read back and
    frame each other; it is interpreted on the file.
  \<^item> \<open>Knoten\<close> (\<open>knoten.h\<close>): the structures, and their layout on the platform with its inverse. No code under
    \<open>src/\<close> encodes them: the program hands their memory to \<open>pwrite\<close> and \<open>pread\<close>.
  \<^item> \<open>Fs_State\<close>: the globals as the record \<open>fs\<close>, pointers into the inode array, the invariant.
  \<^item> \<open>Path_Names\<close>: \<open>getRelativeParentName\<close> and the cut at the last slash, against the list of
    the components of a path.
  \<^item> \<open>First_Match\<close>, \<open>Lookup\<close>: the searches, each an interpretation of one locale that says a
    search returns the least index with a property.
  \<^item> \<open>Directory\<close>: the thirty slots of a directory, against a bounded multiset (locale).
  \<^item> \<open>Flush\<close>: the flush as a sequence of writes, its layout on the disk file.
  \<^item> \<open>Format\<close>: \<open>formatDisk\<close>, the counting loop with its measure and a closed form.
  \<^item> \<open>Inode_Ops\<close>: \<open>create_inode\<close> and \<open>remove_inode\<close>, what they return on every branch and that
    they keep the invariant.
  \<^item> \<open>Heap_Use\<close>: the functions that allocate once more, with the bytes they lose; lookups in a heap of
    a given size, which they use up.
  \<^item> \<open>Sfs_Ops\<close>: the callbacks. \<open>Sfs_Mount\<close>: \<open>sfs_init\<close>, \<open>sfs_destroy\<close>, and what mounting a flushed
    disk file gives. \<open>Sfs_Machine\<close>: the callback table as a step relation
    with runs, the locale \<open>service\<close> and its interpretation; the calls that are undefined.
  \<^item> \<open>Remount\<close>: mounting in another process: pointers on the disk file, and a count of inodes
    beyond the array.
  \<^item> \<open>Crash\<close>: the transfers of a flush in their order, and the disk file when the process dies after
    some of them: a prefix of the ranges written, perhaps with one that is padded and not yet written.
  \<^item> \<open>Lifecycle\<close>: sessions of mounting, serving and unmounting on one disk file, as a second and a
    third interpretation of \<open>service\<close>, with the invariant of the disk file between them.
  \<^item> \<open>Short_Disk\<close>: mounting a disk file that ends before its inodes do.
  \<^item> \<open>Io_Errors\<close>: two executions on devices that behave differently, related by \<open>same_memory\<close>; the
    invariant on any device; a device that takes no write.
  \<^item> \<open>Interleaving\<close>: \<open>create_inode\<close>, \<open>remove_inode\<close> and \<open>findFileOrDir\<close> in steps, with the locale \<open>small_steps\<close> that
    makes the steps of one thread agree with the function. \<open>Scheduler\<close>: any number of threads on
    one state; the invariant under every schedule (\<open>service\<close> once more), the steps that are undefined, the
    bound on its length, two creations that take the same inode, and a search that a creation overtakes.
  \<^item> \<open>Namespace\<close>: the abstract view of the inodes as a finite map from two names to a number, and as the
    table of all numbers that carry them.
  \<^item> \<open>Log\<close> (\<open>log.c\<close>, \<open>log.h\<close>, \<open>params.h\<close>): formatted output with the conversions that are used,
    \<open>log_msg\<close> and the dumps of structures, whose lines are shown to be uniquely readable.
    \<open>Command_Line\<close>: \<open>main\<close> up to the call of \<open>fuse_main\<close>, \<open>log_open\<close> included.
  \<^item> \<open>Example_State\<close>: a formatted disk, a created file and a full directory, for the witnesses.
  \<^item> \<open>Storage_Properties\<close>, \<open>Naming_Properties\<close>, \<open>Mount_Properties\<close>, \<open>Lifecycle_Properties\<close>,
    \<open>Interleaving_Properties\<close>, \<open>Log_Properties\<close>, \<open>Crash_Properties\<close> and this theory: the properties.

  Conventions. A function of the program is a function on the state it reads and changes; its
  result is an \<open>option\<close>, and \<open>None\<close> means that the program does something the C standard
  leaves undefined (an index outside an array, a null or wild pointer followed, a string that
  is not terminated, an overflow of \<open>int\<close> arithmetic), or that it calls \<open>abort\<close> or \<open>exit\<close>. There is one
  exception: every flush reads 544 bytes behind \<open>sBlockData\<close>. As no creation or removal would be defined
  otherwise, these bytes are taken to be memory that is there, with contents the surroundings
  choose (\<open>after_sBlock\<close>), and "defined" below means defined up to that read.
  Machine integers are words, read with \<open>sint\<close>; sums that can wrap are written as such.
  Failures the program reports are part of the value: the integer a callback returns, the
  pointer \<open>Null\<close>, the boolean of \<open>remove_inode\<close>. \<open>errno\<close> holds what the program assigns to it
  itself; the model does not say what a failing library call leaves there. The layout of
  structures, the byte order and the sizes are those of x86-64 Linux.

  Parameters. All that a run takes from outside is in \<open>env\<close>: the ids of the caller, the clock,
  the result of \<open>open\<close>, the offsets at which a read fails, how many bytes a write takes or that it
  fails (\<open>io_takes\<close>, which also stands for a full disk), the heap requests that are granted, the address of the array of inodes, the memory behind \<open>sBlockData\<close> (which the flush
  reads), and the initial contents of the buffer of \<open>sfs_init\<close>. Every call of a run has an
  \<open>env\<close> of its own. Hypotheses such as \<open>io_ok\<close> or \<open>heap_ok\<close> restrict it, and the witnesses
  discharge them on \<open>demo_env\<close>; \<open>host_ok\<close> asks nothing of the device, and neither \<open>host_ok\<close> nor
  \<open>env_ok\<close> asks for memory to be granted, which only \<open>heap_ok\<close> does.

  Bounds. The array of inodes has 100 places, and the invariant bounds the count in the
  superblock by it; \<open>formatDisk\<close> on a disk that gives more than 101 leaves the array when it flushes, and
  the model returns \<open>None\<close> there. The counting loop of \<open>formatDisk\<close> is a \<open>partial_function\<close> and is proved
  to return for all sizes up to \<open>2 ^ 31 - 2 ^ 24\<close>, beyond which its sum may overflow \<open>int\<close>.
  All other loops count remaining rounds or have a measure; no fuel is used. A path whose last two
  components have at most 255 characters fits the arrays of an inode (\<open>path_fits\<close>): properties that say what a
  creation does ask for that, while those on whole runs and on schedules do not, and name the creation that
  does not fit as one of the undefined calls.

  Threads. The program takes no locks. In \<open>Sfs_Machine\<close> FUSE calls the callbacks one after another
  (\<open>-s\<close>); in \<open>Scheduler\<close> creations, removals and searches overlap. A step there is one turn to a part
  of the shared state (a test of the bitmap, the search for the parent, the link, the assignments
  to the inode, the flush, one comparison of a name), and what it writes is visible to the next, so the races shown are
  real, while races inside a step and of a weaker memory are not in the model.

  Crashes. In \<open>Crash\<close> the process dies between two transfers of a flush. A single \<open>pwrite\<close> is taken
  to happen as a whole, and what was transferred to stay; a machine that loses its page cache, or
  writes it back in another order, can leave more kinds of disk file than these.

  Not modelled. \<open>fuse.h\<close> is the header of the library and \<open>config.h\<close> is generated. Lost memory is
  counted in \<open>Heap_Use\<close> for searches and creations only, and a heap of a given size is charged for what a
  lookup loses when the lookup is over. The lines the callbacks send to the log
  file are left out of their models, as they change no state (the line of \<open>add_to_direntry\<close> would
  also overrun a name that is not terminated, which no well-formed state has); \<open>Log\<close> models what
  \<open>log.c\<close> itself prints. A disk file that is not a list of bytes of its own (a device node, a file
  that others write) is outside the model.
\<close>

section \<open>Runs of the mounted file system\<close>

text \<open>C1: However many calls FUSE makes, and in whatever order, the invariant of the mounted file
  system holds afterwards, also when the device fails or takes part of a write: all array sizes
  and counts, terminated names, directories whose slots are null or point into the inode array,
  numbers that index it, the root in its place and the disk file open.\<close>

theorem run_keeps_invariant:
  assumes "rooted_inv s" and "list_all call_fits cs" and "fs_run s cs as u"
  shows "rooted_inv u"
  using any_device.inv_run [OF assms(3,1,2)] .

lemma demo_call_ok: "call_ok (demo_env, Create ''/a'' 33188)"
  using demo_env_ok demo_path_fits by (simp add: call_ok_def cstring_def)

lemma demo_step: "fs_step demo_fs (demo_env, Create ''/a'' 33188) (Code 0) demo_file_fs"
  by (simp add: fs_step_iff code_reply_def sfs_create_def demo_create)

theorem run_keeps_invariant_witness:
  "fs_run demo_fs [(demo_env, Create ''/a'' 33188)] [Code 0] demo_file_fs \<and> rooted_inv demo_file_fs"
proof
  show r: "fs_run demo_fs [(demo_env, Create ''/a'' 33188)] [Code 0] demo_file_fs"
    by (rule run_Cons [OF demo_step run_Nil])
  show "rooted_inv demo_file_fs"
    by (rule run_keeps_invariant [OF demo_rooted _ r]) (simp add: call_ok_fits demo_call_ok)
qed

text \<open>C5: On a well-formed state a call is undefined in exactly three situations: it removes the root,
  which forms the address of \<open>inodes[-1]\<close>; it lists a directory all of whose thirty slots are
  used, which reads behind the slots; or it is a creation that finds a free number and a parent, for a path whose last
  component or whose parent's name has 256 characters or more, which are copied over the end of an array.
  Errors of the device and refused requests for memory add no fourth. The bytes behind \<open>sBlockData\<close>,
  which every flush reads, count as memory that is there.\<close>

theorem call_undefined_iff:
  assumes "rooted_inv s" and "call_fits (e, r)"
  shows "sfs_oper e r s = None \<longleftrightarrow> removes_root r \<or> lists_full e r s \<or> overruns_name e r s"
  by (rule any_device_cases [OF assms]) auto

theorem call_undefined_iff_witness:
  "sfs_oper demo_env (Rmdir ''/'') demo_fs = None \<and> sfs_oper demo_env (Create ''/a'' 33188) demo_fs \<noteq> None \<and>
    sfs_oper demo_env (Mkdir (path_of [replicate 256 CHR ''x'']) 493) demo_fs = None"
proof -
  let ?p = "path_of ([] @ [replicate 256 CHR ''x''])"
  have c: "list_all component ([] @ [replicate 256 CHR ''x''])" by (simp add: component_def)
  have h: "host_ok demo_env" using demo_env_ok by (simp add: host_ok_def env_ok_def)
  have fits: "call_fits (demo_env, Rmdir ''/'')" "call_fits (demo_env, Create ''/a'' 33188)"
    "call_fits (demo_env, Mkdir ?p 493)"
    using h cstring_path_of [OF c] by (simp_all add: call_fits_def cstring_def)
  have "getRelativeParentName demo_env (Some ?p) = Some ''/''"
    using getRelativeParentName_path_of [OF demo_heap_ok c] by (simp add: dir_name_def)
  moreover have "relativeName ?p = replicate 256 CHR ''x''" by (rule relativeName_path_of) simp
  moreover have "create_parent demo_env demo_fs ?p ''/'' = Some (Inode 0)"
    using findRoot_inv [OF demo_inv] by (simp add: create_parent_def)
  ultimately have long: "name_overrun demo_env demo_fs ?p"
    by (simp only: name_overrun_def demo_create_index) simp
  have "\<not> name_overrun demo_env demo_fs ''/a''" using name_overrun_unfit demo_path_fits by blast
  with long call_undefined_iff [OF demo_rooted fits(1)] call_undefined_iff [OF demo_rooted fits(2)]
    call_undefined_iff [OF demo_rooted fits(3)] show ?thesis
    by (simp add: removes_root_def lists_full_def overruns_name_def del: sfs_oper.simps)
qed



section \<open>Mounting\<close>

text \<open>C8: What was found before unmounting is found after mounting again, under the same number, and the
  mounted state is well-formed: for every inode but the last, as long as the slot of the last holds
  an inode at all, zeros for instance.\<close>

theorem remount_finds:
  assumes "fs_inv s" and "mount_ok e" and "dev_ok e (dev s)" and "1 < n_inodes s" and "holds_last s"
    and "fcb_ok (read_inode e (disk (dev s)) (nat (n_inodes s) - 1))"
    and "number_ok (parent_inumber (read_inode e (disk (dev s)) (nat (n_inodes s) - 1)))"
    and "cstring p" and "findFileOrDir e s p = Some (Inode k)" and "int k < n_inodes s - 1"
  shows "\<exists>s' t. flushAllInodesTodisk e False s = Some (True, s') \<and>
    sfs_init e (fs0 (disk (dev s'))) = Some t \<and> fs_inv t \<and> findFileOrDir e t p = Some (Inode k)"
proof -
  have e: "env_ok e" using assms(2) by (simp add: mount_ok_def)
  have n: "nat (n_inodes s) \<le> 100" by (rule fs_inv_count [OF assms(1)])
  let ?t = "loaded e 0 (nat (n_inodes s)) ((opened e (disk (dev (flushed e s))))\<lparr>sBlock := sBlock s\<rparr>)"
  have inv: "fs_inv ?t"
    using assms(1) by (intro loaded_inv image_ok_flushed [OF assms(1) e assms(4-7)] n) (simp add: fs_inv_def)
  have cnt: "n_inodes ?t = n_inodes s" by (simp add: loaded_def Let_def)
  have same: "inodes ?t ! i = inodes s ! i" if "i \<le> k" for i
  proof -
    have "int i < n_inodes s - 1" using that assms(10) by simp
    then show ?thesis
      using read_inode_flushed [OF assms(1) e] n by (simp add: loaded_def Let_def)
  qed
  have "findFileOrDir e ?t p = Some (Inode k)"
  proof (cases "p = ''/''")
    case True
    then show ?thesis
      using assms(9) findRoot_inv [OF assms(1)] findRoot_inv [OF inv] by (simp add: findFileOrDir_def)
  next
    case False
    have "find (\<lambda>i. entry_matches e p (inodes s ! i)) [0..<nat (n_inodes s)] = Some k"
      using assms(9) unfolding findFileOrDir_find [OF assms(1,8) False] option.inject found_case .
    then have "find (\<lambda>i. entry_matches e p (inodes ?t ! i)) [0..<nat (n_inodes s)] = Some k"
      by (auto simp: find_upt_Some_iff same)
    then show ?thesis by (simp add: findFileOrDir_find [OF inv assms(8) False] cnt)
  qed
  with inv show ?thesis using flush_run [OF assms(1) e assms(3)] remount_run [OF assms(1) e assms(2,5)] by blast
qed

theorem remount_finds_witness:
  "\<exists>s' t. flushAllInodesTodisk demo_env False demo_file_fs = Some (True, s') \<and>
    sfs_init demo_env (fs0 (disk (dev s'))) = Some t \<and> findFileOrDir demo_env t ''/a'' = Some (Inode 1)"
proof -
  have "cstring ''/a''" by (simp add: cstring_def)
  from remount_finds [OF demo_file_inv demo_mount_ok demo_file_dev_ok _ demo_file_holds_last _ _ this demo_file_found]
    demo_file_last_ok demo_file_n show ?thesis by fastforce
qed

text \<open>C9: A process that mounts what another has flushed finds the same superblock counts and the same
  bitmap of inodes, and every inode but the last as it was; in the place of the last it finds
  what the disk file held there before, because the flush does not write it.\<close>

theorem remount_restores:
  assumes "fs_inv s" and "mount_ok e" and "dev_ok e (dev s)" and "0 < n_inodes s" and "holds_last s"
  shows "\<exists>s' t. flushAllInodesTodisk e False s = Some (True, s') \<and>
    sfs_init e (fs0 (disk (dev s'))) = Some t \<and>
    numInodes (sBlock t) = numInodes (sBlock s) \<and> ibmap (sBlock t) = ibmap (sBlock s) \<and>
    (\<forall>i. int i < n_inodes s - 1 \<longrightarrow> inodes t ! i = inodes s ! i) \<and>
    inodes t ! (nat (n_inodes s) - 1) = read_inode e (disk (dev s)) (nat (n_inodes s) - 1)"
proof -
  have e: "env_ok e" using assms(2) by (simp add: mount_ok_def)
  have n: "nat (n_inodes s) \<le> 100" by (rule fs_inv_count [OF assms(1)])
  let ?t = "loaded e 0 (nat (n_inodes s)) ((opened e (disk (dev (flushed e s))))\<lparr>sBlock := sBlock s\<rparr>)"
  have "inodes ?t ! i = read_inode e (disk (dev (flushed e s))) i" if "i < nat (n_inodes s)" for i
    using that n by (simp add: loaded_def Let_def)
  then have "\<forall>i. int i < n_inodes s - 1 \<longrightarrow> inodes ?t ! i = inodes s ! i"
    and "inodes ?t ! (nat (n_inodes s) - 1) = read_inode e (disk (dev s)) (nat (n_inodes s) - 1)"
    using read_inode_flushed [OF assms(1) e] read_inode_last [OF assms(1) e assms(5)] assms(4) by simp_all
  moreover have "sBlock ?t = (sBlock s)\<lparr>dbmap := dbmap (sBlock ?t)\<rparr>" by (simp add: loaded_def Let_def)
  then have "numInodes (sBlock ?t) = numInodes (sBlock s)" "ibmap (sBlock ?t) = ibmap (sBlock s)"
    by (simp_all add: loaded_def Let_def)
  ultimately show ?thesis
    using flush_run [OF assms(1) e assms(3)] remount_run [OF assms(1) e assms(2,5)] by blast
qed

theorem remount_restores_witness:
  "\<exists>s' t. flushAllInodesTodisk demo_env False demo_fs = Some (True, s') \<and>
    sfs_init demo_env (fs0 (disk (dev s'))) = Some t \<and> inodes t ! 0 = inodes demo_fs ! 0"
  using remount_restores [OF demo_inv demo_mount_ok demo_dev_ok _ demo_holds_last] demo_n by force

text \<open>C27: The program cannot make a file system out of a new disk file: mounted on an empty file, or on
  one filled with zeros, it has no inodes, and no run of calls, whatever they are, changes that: no
  creation finds a number, and \<open>sfs_create\<close> answers with the negated \<open>errno\<close> of an earlier call. That is 0,
  success, right after mounting and as long as the calls are creations, which leave the state as it is.\<close>

theorem new_disk_never_creates:
  assumes "mount_ok e" and "f = [] \<or> 8 \<le> length f \<and> f = replicate (length f) 0"
  shows "\<exists>t. sfs_init e (fs0 f) = Some t \<and> errno t = 0 \<and> (\<forall>cs replies u. fs_run t cs replies u \<longrightarrow>
    numInodes (sBlock u) = 0 \<and> (list_all (\<lambda>(e', r). creates r) cs \<longrightarrow> u = t) \<and>
    (\<forall>e' p m. create_inode e' u p m = Some (Null, u) \<and> sfs_create e' u p m = Some (- errno u, u)))"
proof -
  have "\<exists>t. sfs_init e (fs0 f) = Some t \<and> numInodes (sBlock t) = 0 \<and> errno t = 0"
    using assms(2) sfs_init_empty [OF assms(1)] sfs_init_blank [OF assms(1), of "length f"] by metis
  then obtain t where t: "sfs_init e (fs0 f) = Some t" "numInodes (sBlock t) = 0" "errno t = 0" by blast
  have "numInodes (sBlock u) = 0 \<and> (list_all (\<lambda>(e', r). creates r) cs \<longrightarrow> u = t) \<and>
      (\<forall>e' p m. create_inode e' u p m = Some (Null, u) \<and> sfs_create e' u p m = Some (- errno u, u))"
    if "fs_run t cs replies u" for cs replies u
    using no_inodes_run [OF that t(2)] by (simp add: sfs_create_def no_inodes_no_create)
  with t show ?thesis by blast
qed

theorem new_disk_never_creates_witness:
  "\<exists>t u. sfs_init demo_env (fs0 (replicate 5000000 0)) = Some t \<and> sfs_create demo_env t ''/a'' 33188 = Some (0, t) \<and>
    sfs_open demo_env t ''/a'' = Some (- 2, u) \<and> sfs_create demo_env u ''/a'' 33188 = Some (- 2, u)"
proof -
  from new_disk_never_creates [OF demo_mount_ok, of "replicate 5000000 0"] obtain t where
    t: "sfs_init demo_env (fs0 (replicate 5000000 0)) = Some t" "errno t = 0"
    and run: "\<And>cs replies u. fs_run t cs replies u \<Longrightarrow> numInodes (sBlock u) = 0 \<and>
      (\<forall>e' p m. sfs_create e' u p m = Some (- errno u, u))" by auto
  have 0: "sfs_create demo_env t ''/a'' 33188 = Some (0, t)" "n_inodes t = 0"
    using run [OF run_Nil] t(2) by simp_all
  have o: "sfs_open demo_env t ''/a'' = Some (- 2, t\<lparr>errno := 2\<rparr>)"
    using 0(2) by (simp add: sfs_open_def findFileOrDir_def ENOENT_def Let_def)
  then have "fs_step t (demo_env, Open ''/a'') (Code (- 2)) (t\<lparr>errno := 2\<rparr>)" by (simp add: fs_step_iff code_reply_def)
  from run [OF run_Cons [OF this run_Nil]] have "sfs_create demo_env (t\<lparr>errno := 2\<rparr>) ''/a'' 33188 = Some (- 2, t\<lparr>errno := 2\<rparr>)"
    by simp
  with t(1) 0(1) o show ?thesis by blast
qed

section \<open>Creating\<close>

text \<open>C15: \<open>create_inode\<close> takes the least free number \<open>i\<close> from 1 on, marks it used, and writes into inode \<open>i\<close> the
  names, the numbers, the mode, the user and the time. The size, the blocks and the directory entries that
  inode had stay. Its parent, an inode other than \<open>i\<close>, changes in its directory only, by the entry
  for \<open>i\<close> in the first unused slot, and not at all when no slot is unused. No other inode, and no other entry of the
  bitmap, changes.\<close>

theorem create_effect:
  assumes "fs_inv s" and "env_ok e" and "dev_ok e (dev s)" and "path_fits e p"
    and "0 < i" and "int i < n_inodes s" and "ibmap (sBlock s) ! i \<noteq> 1"
    and "\<forall>j. 0 < j \<and> j < i \<longrightarrow> ibmap (sBlock s) ! j = 1"
    and "getRelativeParentName e (Some p) = Some q" and "create_parent e s p q = Some (Inode k)" and "k \<noteq> i"
  shows "\<exists>t. create_inode e s p m = Some (Inode i, t) \<and>
    name_of (inodes t ! i) = relativeName p \<and> parent_name_of (inodes t ! i) = q \<and>
    inumber (inodes t ! i) = of_nat i \<and> parent_inumber (inodes t ! i) = inumber (inodes s ! k) \<and>
    fcb_mode (inodes t ! i) = ucast m \<and> fcb_uid (inodes t ! i) = ucast (uid_now e) \<and>
    fcb_time (inodes t ! i) = time_now e \<and>
    fileSize (inodes t ! i) = fileSize (inodes s ! i) \<and> numBlocks (inodes t ! i) = numBlocks (inodes s ! i) \<and>
    fcb_block (inodes t ! i) = fcb_block (inodes s ! i) \<and> dirContents (inodes t ! i) = dirContents (inodes s ! i) \<and>
    inodes t ! k = (inodes s ! k)\<lparr>dirContents := put_entry i (dirContents (inodes s ! k))\<rparr> \<and>
    (Null \<notin> set (dirContents (inodes s ! k)) \<longrightarrow> inodes t ! k = inodes s ! k) \<and>
    ibmap (sBlock t) = (ibmap (sBlock s))[i := 1] \<and> (\<forall>j. j \<noteq> i \<and> j \<noteq> k \<longrightarrow> inodes t ! j = inodes s ! j)"
proof -
  have idx: "create_index (sBlock s) = Some i" by (rule create_index_least [OF assms(5-8)])
  have i: "i < 100" using create_index_bound [OF assms(1) idx] by simp
  have p: "cstring p" using assms(4) by (simp add: path_fits_def)
  have k: "k < 100" using create_parent_inv [OF assms(1) p assms(10)] by simp
  let ?t = "created e s (relativeName p) q m k i"
  have l: "length (inodes s) = 100" by (rule fs_inv_length [OF assms(1)])
  have new: "inodes ?t ! i = new_fcb e (inodes s ! i) (relativeName p) q m (inumber (inodes s ! k)) i"
    using created_new [of i s] l i assms(11) by (simp add: parent_number_def link_inodes_def)
  have dir: "inodes ?t ! k = (inodes s ! k)\<lparr>dirContents := put_entry i (dirContents (inodes s ! k))\<rparr>"
    using l k assms(11) by (simp add: created_def link_inodes_def)
  have "put_entry i (dirContents (inodes s ! k)) = dirContents (inodes s ! k)"
    if "Null \<notin> set (dirContents (inodes s ! k))"
    using put_entry_full [OF fcb_ok_dir_length [OF fs_inv_fcb [OF assms(1) k]] that] .
  with dir have "Null \<notin> set (dirContents (inodes s ! k)) \<longrightarrow> inodes ?t ! k = inodes s ! k" by simp
  moreover have "\<forall>j. j \<noteq> i \<and> j \<noteq> k \<longrightarrow> inodes ?t ! j = inodes s ! j"
    by (simp add: created_def link_inodes_def)
  moreover have "ibmap (sBlock ?t) = (ibmap (sBlock s))[i := 1]" by (simp add: created_def)
  moreover have "create_inode e s p m = Some (Inode i, flushed e ?t)"
    using create_inode_at [OF assms(1)] idx create_at_run [OF assms(1-5) i assms(9,10) k] by simp
  ultimately show ?thesis
    using new_fcb_names [OF cstring_relativeName [OF p] getRelativeParentName_cstring [OF p assms(9)]] dir
    by (intro exI [of _ "flushed e ?t"]) (simp add: new)
qed

lemma demo_parent: "create_parent demo_env demo_fs ''/a'' ''/'' = Some (Inode 0)"
  using findRoot_inv [OF demo_inv] by (simp add: create_parent_def)

theorem create_effect_witness:
  "\<exists>t. create_inode demo_env demo_fs ''/a'' 33188 = Some (Inode 1, t) \<and> name_of (inodes t ! 1) = ''a'' \<and>
    fcb_uid (inodes t ! 1) = 1000 \<and> dirContents (inodes t ! 0) = put_entry 1 (replicate 30 Null)"
proof -
  have u: "uid_now demo_env = 1000" by (simp add: demo_env_def)
  show ?thesis
    using create_effect [OF demo_inv demo_env_ok demo_dev_ok demo_path_fits _ _ _ _ demo_parent_name demo_parent,
        of 1 33188] demo_n demo_bitmap demo_root_dir u
    by (auto simp: relativeName_def)
qed

text \<open>C16: A path that named nothing names the new inode once it is created.\<close>

theorem create_then_found:
  assumes "fs_inv s" and "env_ok e" and "dev_ok e (dev s)" and "path_fits e p"
    and "findFileOrDir e s p = Some Null" and "create_inode e s p m = Some (Inode i, t)"
  shows "findFileOrDir e t p = Some (Inode i)"
proof -
  have p: "cstring p" using assms(4) by (simp add: path_fits_def)
  obtain k q where t: "t = flushed e (created e s (relativeName p) q m k i)"
    and inv: "fs_inv (created e s (relativeName p) q m k i)" and i: "i < nat (n_inodes s)"
    and q: "getRelativeParentName e (Some p) = Some q"
    by (rule create_inode_SomeE [OF assms(1-4,6)])
  from created_found [OF assms(1) inv i p refl q assms(5)] t show ?thesis by simp
qed

theorem create_then_found_witness:
  "create_inode demo_env demo_fs ''/a'' 33188 = Some (Inode 1, demo_file_fs) \<and>
    findFileOrDir demo_env demo_file_fs ''/a'' = Some (Inode 1)"
  using create_then_found [OF demo_inv demo_env_ok demo_dev_ok demo_path_fits demo_no_a demo_create] demo_create
  by simp

text \<open>C21: Nothing stops a path from being created twice: with a free number and a parent the creation of a
  path that is found succeeds like any other. The new inode carries the same names as the one found, which is
  another unless that one was marked free, and the path then names the one with the lesser number.\<close>

theorem create_again:
  assumes "fs_inv s" and "env_ok e" and "dev_ok e (dev s)" and "path_fits e p" and "p \<noteq> ''/''"
    and "findFileOrDir e s p = Some (Inode c)" and "create_index (sBlock s) = Some i"
    and "getRelativeParentName e (Some p) = Some q" and "create_parent e s p q = Some (Inode k)"
  shows "\<exists>t. create_inode e s p m = Some (Inode i, t) \<and>
    name_of (inodes t ! i) = name_of (inodes s ! c) \<and> parent_name_of (inodes t ! i) = parent_name_of (inodes s ! c) \<and>
    (ibmap (sBlock s) ! c = 1 \<longrightarrow> i \<noteq> c) \<and> findFileOrDir e t p = Some (Inode (min i c))"
proof -
  have p: "cstring p" using assms(4) by (simp add: path_fits_def)
  have k: "k < 100" using create_parent_inv [OF assms(1) p assms(9)] by simp
  note bound = create_index_bound [OF assms(1,7)]
  then have i: "i < nat (n_inodes s)" "i < 100" by linarith+
  have q: "getRelativeParentName e (Some p) = Some q" "cstring q" and r: "cstring (relativeName p)"
    using assms(8) getRelativeParentName_cstring [OF p assms(8)] cstring_relativeName [OF p] by simp_all
  have "length (relativeName p) < 256" "length q < 256" using assms(4,8) by (simp_all add: path_fits_def)
  then have inv: "fs_inv (created e s (relativeName p) q m k i)"
    using bound by (intro created_inv [OF assms(1) k] r q(2)) simp_all
  have run: "create_inode e s p m = Some (Inode i, flushed e (created e s (relativeName p) q m k i))"
    using create_inode_at [OF assms(1)] assms(7) bound create_at_run [OF assms(1-4) _ _ assms(8,9) k] by simp
  let ?t = "created e s (relativeName p) q m k i"
  have l: "i < length (inodes s)" using i(2) fs_inv_length [OF assms(1)] by simp
  have c: "entry_matches e p (inodes s ! c)"
    using findFileOrDir_nonroot [OF assms(1) p assms(5,6)] by simp
  have first: "c < nat (n_inodes s) \<and> (\<forall>j<c. \<not> entry_matches e p (inodes s ! j))"
    using assms(6) unfolding findFileOrDir_find [OF assms(1) p assms(5)] option.inject found_case
    by (simp add: find_upt_Some_iff)
  have new: "entry_matches e p (inodes ?t ! i)"
    using created_new_matches [OF l r q(2)] q(1) by simp
  have old: "entry_matches e p (inodes ?t ! j) = entry_matches e p (inodes s ! j)" if "j \<noteq> i" for j
    using created_other_matches [OF that] .
  have "find (\<lambda>j. entry_matches e p (inodes ?t ! j)) [0..<nat (n_inodes s)] = Some (min i c)"
  proof (cases "i \<le> c")
    case True
    then show ?thesis using first new old i(1) by (auto simp: find_upt_Some_iff min_def)
  next
    case False
    then show ?thesis using first c old by (auto simp: find_upt_Some_iff min_def)
  qed
  moreover have "n_inodes ?t = n_inodes s" by (simp add: created_def)
  ultimately have "findFileOrDir e ?t p = Some (Inode (min i c))"
    using findFileOrDir_find [OF inv p assms(5), of e] by simp
  moreover have "name_of (inodes s ! c) = relativeName p" "parent_name_of (inodes s ! c) = q"
    using c q(1) by (simp_all add: entry_matches_def)
  ultimately show ?thesis using run bound new_fcb_names [OF r q(2)] created_new [OF l] by auto
qed

theorem create_again_witness:
  "\<exists>t. create_inode demo_env demo_file_fs ''/a'' 33188 = Some (Inode 2, t) \<and>
    name_of (inodes t ! 2) = name_of (inodes demo_file_fs ! 1) \<and>
    findFileOrDir demo_env t ''/a'' = Some (Inode 1)"
proof -
  have "create_parent demo_env demo_file_fs ''/a'' ''/'' = Some (Inode 0)"
    using findRoot_inv [OF demo_file_inv] by (simp add: create_parent_def)
  from create_again [OF demo_file_inv demo_env_ok demo_file_dev_ok demo_path_fits _ demo_file_found demo_file_index
      demo_parent_name this, of 33188] show ?thesis by auto
qed

text \<open>C20: Seen as the table that gives, for a name and a directory name, the numbers of all inodes that carry them, a
  creation moves the number it takes to the new pair: it is added there, beside numbers that carry the pair
  already, and taken away from every other pair, since a number that was used before loses its old names. Every
  lookup afterwards is answered from that table: with the least number of its pair, or with none.\<close>

theorem create_refines_namespace:
  assumes "fs_inv s" and "env_ok e" and "dev_ok e (dev s)" and "path_fits e p"
    and "getRelativeParentName e (Some p) = Some q" and "create_inode e s p m = Some (Inode i, t)"
  shows "carriers t = (\<lambda>x. carriers s x - {i})((relativeName p, q) := insert i (carriers s (relativeName p, q))) \<and>
    (\<forall>e' p' q'. cstring p' \<and> p' \<noteq> ''/'' \<and> getRelativeParentName e' (Some p') = Some q' \<longrightarrow>
      findFileOrDir e' t p' = Some (if carriers t (relativeName p', q') = {} then Null
        else Inode (Min (carriers t (relativeName p', q')))))"
proof -
  obtain k q' where t: "t = flushed e (created e s (relativeName p) q' m k i)"
    and inv: "fs_inv (created e s (relativeName p) q' m k i)"
    and i: "i < nat (n_inodes s)" "i < 100" and q: "getRelativeParentName e (Some p) = Some q'" "cstring q'"
    and r: "cstring (relativeName p)"
    by (rule create_inode_SomeE [OF assms(1-4,6)])
  have "i < length (inodes s)" using i(2) fs_inv_length [OF assms(1)] by simp
  note carriers_created [OF this i(1) r q(2), of e m k]
  moreover have "fs_inv t" using inv by (simp add: t)
  ultimately show ?thesis using findFileOrDir_carriers [of t] assms(5) q(1) by (simp add: t)
qed

theorem create_refines_namespace_witness:
  "carriers demo_file_fs (''a'', ''/'') = {1} \<and> carriers demo_file_fs ([], []) = carriers demo_fs ([], []) - {1} \<and>
    findFileOrDir demo_env demo_file_fs ''/a'' = Some (Inode 1)"
proof -
  have r: "relativeName ''/a'' = ''a''" and c: "cstring ''/a''" by (simp_all add: relativeName_def cstring_def)
  note k = create_refines_namespace [OF demo_inv demo_env_ok demo_dev_ok demo_path_fits demo_parent_name demo_create]
  have "carriers demo_fs (''a'', ''/'') = {}"
    using demo_no_a findFileOrDir_carriers [OF demo_inv c _ demo_parent_name] by (simp add: r split: if_splits)
  then have a: "carriers demo_file_fs (''a'', ''/'') = {1}"
    and b: "carriers demo_file_fs ([], []) = carriers demo_fs ([], []) - {1}"
    using conjunct1 [OF k] by (simp_all add: r)
  have "findFileOrDir demo_env demo_file_fs ''/a'' = Some (Inode (Min {1}))"
    using conjunct2 [OF k, rule_format, of "''/a''" demo_env "''/''"] c demo_parent_name a by (simp add: r)
  with a b show ?thesis by simp
qed



text \<open>Every creation that succeeds uses up one of the numbers from 1 on that are not marked used, and
  when there is none left every creation fails: of a row of creations at most as many succeed.\<close>

lemma create_consumes:
  assumes "fs_inv s" and "env_ok e" and "dev_ok e (dev s)" and "path_fits e p"
    and "create_inode e s p m = Some (r, t)"
  shows "(r \<noteq> Null \<longrightarrow> Suc (free_count (sBlock t)) = free_count (sBlock s)) \<and>
    (free_count (sBlock s) = 0 \<longrightarrow> r = Null \<and> t = s)"
proof -
  have b: "length (ibmap (sBlock s)) = 5859"
    using assms(1) by (simp add: fs_inv_def geometry_ok_def superblock_typed_def)
  have "Suc (free_count (sBlock t)) = free_count (sBlock s)" if "r = Inode i" for i
  proof -
    have c: "create_inode e s p m = Some (Inode i, t)" using assms(5) that by simp
    obtain k q where t: "t = flushed e (created e s (relativeName p) q m k i)"
      and i: "create_index (sBlock s) = Some i" "i < 100"
      by (rule create_inode_SomeE [OF assms(1-4) c])
    have "sBlock t = (sBlock s)\<lparr>ibmap := (ibmap (sBlock s))[i := 1]\<rparr>" by (simp add: t created_def)
    then show ?thesis using free_count_take [OF i(1)] i(2) b by simp
  qed
  moreover have "r = Null \<or> (\<exists>i. r = Inode i)"
    by (cases rule: create_inode_cases [OF assms(1-4), of m]) (use assms(5) in auto)
  moreover have "r = Null \<and> t = s" if "free_count (sBlock s) = 0"
    using that assms(5) create_inode_at [OF assms(1)] by (simp add: free_count_zero_iff)
  ultimately show ?thesis by blast
qed

text \<open>C38: A last component of 256 characters or more overruns the name array of the inode: the copy is not
  guarded by a length.\<close>

theorem create_overflow:
  assumes "fs_inv s" and "cstring p" and "0 < free_count (sBlock s)"
    and "getRelativeParentName e (Some p) = Some q" and "create_parent e s p q = Some (Inode k)"
    and "256 \<le> length (relativeName p)"
  shows "create_inode e s p m = None"
proof -
  obtain i where i: "create_index (sBlock s) = Some i" using assms(3) free_count_zero_iff [of "sBlock s"]
    by (cases "create_index (sBlock s)") auto
  have i100: "i < 100" using create_index_bound [OF assms(1) i] by simp
  have k: "k < 100" using create_parent_inv [OF assms(1,2,5)] by simp
  have "create_at e s p m i = None"
    using assms(6) by (intro create_at_too_long [OF assms(1) i100 assms(4,5) k]) simp
  then show ?thesis using create_inode_at [OF assms(1)] i by simp
qed

theorem create_overflow_witness:
  "create_inode demo_env demo_fs (path_of [replicate 256 CHR ''x'']) 33188 = None"
proof -
  let ?p = "path_of ([] @ [replicate 256 CHR ''x''])"
  have c: "list_all component ([] @ [replicate 256 CHR ''x''])" by (simp add: component_def)
  have q: "getRelativeParentName demo_env (Some ?p) = Some ''/''"
    using getRelativeParentName_path_of [OF demo_heap_ok c] by (simp add: dir_name_def)
  have r: "relativeName ?p = replicate 256 CHR ''x''" by (rule relativeName_path_of) simp
  have "free_count (sBlock demo_fs) \<noteq> 0" by (simp add: free_count_zero_iff demo_create_index)
  moreover have "create_parent demo_env demo_fs ?p ''/'' = Some (Inode 0)"
    using findRoot_inv [OF demo_inv] by (simp add: create_parent_def)
  ultimately show ?thesis
    using create_overflow [OF demo_inv cstring_path_of [OF c] _ q] r by simp
qed

section \<open>Removing\<close>

text \<open>C22: Removing a path frees the number in the bitmap, but leaves all names where they are: the path is
  found afterwards as it was before, and so is every other.\<close>

theorem removed_still_found:
  assumes "fs_inv s" and "env_ok e" and "dev_ok e (dev s)" and "cstring p" and "p \<noteq> ''/''"
    and "findFileOrDir e s p = Some (Inode c)"
  shows "\<exists>t. sfs_unlink e s p = Some (0, t) \<and>
    ibmap (sBlock t) = (ibmap (sBlock s))[nat (sint (inumber (inodes s ! c))) := 0] \<and>
    namespace t = namespace s \<and> sfs_open e t p = Some (0, t)"
proof -
  let ?k = "nat (sint (parent_inumber (inodes s ! c)))"
  let ?t = "removed_at s ?k c"
  have c: "0 < c" "c < 100" using findFileOrDir_nonroot [OF assms(1,4-6)] by simp_all
  have k: "?k < 100" using fs_inv_parent [OF assms(1) c] by (auto simp: number_ok_def)
  have inv: "fs_inv ?t" by (rule removed_inv [OF assms(1) k c(2)])
  have "n_inodes ?t = n_inodes s" by (simp add: removed_at_def Let_def split: option.split)
  then have "findFileOrDir e ?t p = Some (Inode c)"
    using findFileOrDir_cong [OF inv assms(1,4), of e] assms(6) by (simp add: removed_names)
  moreover have "ibmap (sBlock ?t) = (ibmap (sBlock s))[nat (sint (inumber (inodes s ! c))) := 0]"
    by (simp add: removed_at_def Let_def split: option.split)
  ultimately show ?thesis
    using remove_inode_run [OF assms] namespace_removed [of s ?k c]
    by (simp add: sfs_unlink_def sfs_open_def)
qed

theorem removed_still_found_witness:
  "\<exists>t. sfs_unlink demo_env demo_file_fs ''/a'' = Some (0, t) \<and> sfs_open demo_env t ''/a'' = Some (0, t)"
  using removed_still_found [OF demo_file_inv demo_env_ok demo_file_dev_ok _ _ demo_file_found]
  by (auto simp: cstring_def)

section \<open>Listing\<close>

text \<open>C32: Listing a directory gives its two dot entries and the names of the entries in front of the first
  unused slot, in the order of the slots, and leaves the state as it is.\<close>

theorem readdir_lists_prefix:
  assumes "fs_inv s" and "cstring p" and "findFileOrDir e s p = Some (Inode k)"
    and "Null \<in> set (dirContents (inodes s ! k))"
  shows "sfs_readdir e s p = Some (0, ''.'' # ''..'' # map (\<lambda>x. name_of (inodes s ! ptr_index x))
    (takeWhile (\<lambda>x. x \<noteq> Null) (dirContents (inodes s ! k))), s)"
  using sfs_readdir_run [OF assms(1,2), of e] assms(3,4) by (simp add: listed_names_def listed_def)

theorem readdir_lists_prefix_witness:
  "sfs_readdir demo_env demo_file_fs ''/'' = Some (0, [''.'', ''..'', ''a''], demo_file_fs)"
proof -
  have "findFileOrDir demo_env demo_file_fs ''/'' = Some (Inode 0)"
    using findRoot_inv [OF demo_file_inv] by (simp add: findFileOrDir_def)
  moreover have "name_of (inodes demo_file_fs ! 1) = ''a''"
    unfolding demo_file_new using new_fcb_names by (simp add: cstring_def)
  ultimately show ?thesis
    using readdir_lists_prefix [OF demo_file_inv, of "''/''" demo_env 0]
    by (simp add: demo_file_root cstring_def)
qed

text \<open>C31: Taking out an entry of a directory whose last slot is unused leaves a gap, and the entries behind
  the gap are no longer listed.\<close>

theorem removal_hides_rest:
  assumes "fs_inv s" and "cstring p" and "findFileOrDir e s p = Some (Inode k)"
    and "dirContents (inodes s ! k) ! 29 = Null" and "j < 29"
  shows "\<exists>t. indexed_remove_from_direntry s (Inode k) (int j) = Some (True, t) \<and>
    sfs_readdir e t p = Some (0, ''.'' # ''..'' # map (\<lambda>x. name_of (inodes s ! ptr_index x))
      (takeWhile (\<lambda>x. x \<noteq> Null) (take j (dirContents (inodes s ! k)))), t)"
proof -
  let ?dc = "dirContents (inodes s ! k)"
  have k: "k < 100" using assms(3) by (cases rule: findFileOrDir_cases [OF assms(1,2), of e]) auto
  have f: "fcb_ok (inodes s ! k)" by (rule fs_inv_fcb [OF assms(1) k])
  have len: "length ?dc = 30" by (rule fcb_ok_dir_length [OF f])
  have l: "length (inodes s) = 100" by (rule fs_inv_length [OF assms(1)])
  let ?g = "(inodes s ! k)\<lparr>dirContents := take_entry j ?dc\<rparr>"
  let ?t = "s\<lparr>inodes := (inodes s)[k := ?g]\<rparr>"
  have t: "fs_inv ?t"
    by (rule fs_inv_update [OF assms(1) fcb_ok_take [OF f]]) (use fs_inv_parent [OF assms(1)] k in auto)
  have rm: "indexed_remove_from_direntry s (Inode k) (int j) = Some (True, ?t)"
    using f k l assms(5) len by (intro indexed_remove_in) (auto simp: fcb_ok_def dir_ok_def)
  have nm: "name_of (inodes ?t ! i) = name_of (inodes s ! i)" for i
    using k l by (cases "i = k") (simp_all add: name_of_def)
  have find: "findFileOrDir e ?t p = Some (Inode k)"
    using findFileOrDir_cong [OF t assms(1,2), of e] assms(3) k l by (simp add: nth_list_update)
  have dc: "take_entry j ?dc = ?dc[j := Null]"
    using assms(4,5) len by (simp add: take_entry_def list_update_swap list_update_same_conv)
  have split: "?dc[j := Null] = take j ?dc @ Null # drop (Suc j) ?dc"
    using assms(5) len by (simp add: upd_conv_take_nth_drop)
  have tdc: "dirContents (inodes ?t ! k) = take j ?dc @ Null # drop (Suc j) ?dc"
    using k l by (simp add: dc split)
  then have "Null \<in> set (dirContents (inodes ?t ! k))" by simp
  then have "sfs_readdir e ?t p = Some (0, ''.'' # ''..'' # listed_names ?t (dirContents (inodes ?t ! k)), ?t)"
    using sfs_readdir_run [OF t assms(2), of e] find by simp
  moreover have "listed_names ?t (dirContents (inodes ?t ! k)) = map (\<lambda>x. name_of (inodes s ! ptr_index x))
      (takeWhile (\<lambda>x. x \<noteq> Null) (take j ?dc))"
    unfolding listed_names_def listed_def tdc nm by (simp add: takeWhile_stop)
  ultimately show ?thesis using rm by (intro exI [of _ ?t]) (simp only: simp_thms)
qed

theorem removal_hides_rest_witness:
  "\<exists>t. indexed_remove_from_direntry demo_file_fs (Inode 0) 0 = Some (True, t) \<and>
    sfs_readdir demo_env t ''/'' = Some (0, [''.'', ''..''], t)"
proof -
  have "findFileOrDir demo_env demo_file_fs ''/'' = Some (Inode 0)"
    using findRoot_inv [OF demo_file_inv] by (simp add: findFileOrDir_def)
  then show ?thesis
    using removal_hides_rest [OF demo_file_inv, of "''/''" demo_env 0 0] by (simp add: demo_file_root cstring_def)
qed

section \<open>Attributes\<close>

text \<open>C37: After a path was created, its attributes show what became of the mode and the user: the type is
  known only for the two 16-bit modes 493 and 16384, a directory, and the one of 33188, a file with
  permissions 644; with any other the type is left as the caller had it, and permissions are
  never given. The user is cut down to 16 bits and extended by its sign.\<close>

theorem create_then_getattr:
  assumes "fs_inv s" and "env_ok e" and "dev_ok e (dev s)" and "path_fits e p"
    and "findFileOrDir e s p = Some Null" and "create_inode e s p m = Some (Inode i, t)"
    and "\<not> trash_or_root p" and "length p \<le> 4096"
  shows "\<exists>st'. sfs_getattr e t p (Some st) = Some (0, Some st', t) \<and>
    st_mode st' = (if (ucast m :: c_short) = 493 \<or> (ucast m :: c_short) = 16384 then S_IFDIR
      else if (ucast m :: c_short) = 33188 then S_IFREG else st_mode st) \<and>
    st_uid st' = scast (ucast (uid_now e) :: c_short) \<and> st_gid st' = gid_now e \<and>
    st_mtime st' = time_now e"
proof -
  have p: "cstring p" using assms(4) by (simp add: path_fits_def)
  obtain k q where t: "t = flushed e (created e s (relativeName p) q m k i)"
    and inv: "fs_inv (created e s (relativeName p) q m k i)" and i: "i < nat (n_inodes s)" "i < 100"
    and q: "getRelativeParentName e (Some p) = Some q"
    by (rule create_inode_SomeE [OF assms(1-4,6)])
  have f: "findFileOrDir e t p = Some (Inode i)"
    using created_found [OF assms(1) inv i(1) p refl q assms(5)] t by simp
  have l: "i < length (inodes s)" using i(2) fs_inv_length [OF assms(1)] by simp
  let ?g = "new_fcb e (link_inodes (inodes s) k i ! i) (relativeName p) q m (parent_number (inodes s) k i) i"
  have g: "deref t (Inode i) = Some ?g"
    using fs_inv_length [OF inv] i(2) t created_new [OF l] by simp
  have m: "sint (w :: c_short) = 493 \<longleftrightarrow> w = 493" "sint w = 16384 \<longleftrightarrow> w = 16384" "sint w = - 32348 \<longleftrightarrow> w = 33188"
    for w :: c_short
    using sint_inject [of w 493] sint_inject [of w 16384] sint_inject [of w 33188] by simp_all
  show ?thesis
    using f g assms(7,8) by (simp add: sfs_getattr_def type_of_mode_def PATH_MAX_def m)
qed


theorem create_then_getattr_witness:
  "\<forall>st. \<exists>st'. sfs_getattr demo_env demo_file_fs ''/a'' (Some st) = Some (0, Some st', demo_file_fs) \<and>
    st_mode st' = S_IFREG \<and> st_uid st' = 1000"
proof
  fix st
  have "uid_now demo_env = 1000" by (simp add: demo_env_def)
  then show "\<exists>st'. sfs_getattr demo_env demo_file_fs ''/a'' (Some st) = Some (0, Some st', demo_file_fs) \<and>
    st_mode st' = S_IFREG \<and> st_uid st' = 1000"
    using create_then_getattr [OF demo_inv demo_env_ok demo_dev_ok demo_path_fits demo_no_a demo_create, of st]
    by (auto simp: trash_or_root_def)
qed

text \<open>Asking for attributes fails in three ways, none of which touches the caller's buffer: a path of
  more than 4096 characters and a missing buffer are answered with \<open>-1\<close> and not with the negated
  error number, which goes to \<open>errno\<close> alone, and a path that names nothing with \<open>-ENOENT\<close>, which
  does not go to \<open>errno\<close>.\<close>

lemma getattr_errors:
  assumes "fs_inv s" and "cstring p"
  shows "(4096 < length p \<longrightarrow> sfs_getattr e s p st = Some (- 1, st, s\<lparr>errno := ENAMETOOLONG\<rparr>)) \<and>
    (length p \<le> 4096 \<longrightarrow> sfs_getattr e s p None = Some (- 1, None, s\<lparr>errno := EIO\<rparr>)) \<and>
    (length p \<le> 4096 \<and> \<not> trash_or_root p \<and> findFileOrDir e s p = Some Null \<longrightarrow>
      sfs_getattr e s p (Some b) = Some (- ENOENT, Some b, s))"
  by (simp add: sfs_getattr_def PATH_MAX_def)

section \<open>Results of the other callbacks\<close>

text \<open>Making a directory reports success whatever happens, even when there is no inode left or no
  parent, and does nothing at all for any mode other than 493 and the unsigned form of \<open>-32348\<close>.\<close>

lemma mkdir_reports_success:
  assumes "fs_inv s" and "env_ok e" and "dev_ok e (dev s)" and "path_fits e p"
  shows "(\<exists>t. sfs_mkdir e s p m = Some (0, t)) \<and>
    (m \<noteq> 493 \<and> m \<noteq> 4294934948 \<longrightarrow> sfs_mkdir e s p m = Some (0, s)) \<and>
    (free_count (sBlock s) = 0 \<longrightarrow> sfs_mkdir e s p m = Some (0, s))"
proof -
  have "\<exists>r t. create_inode e s p m' = Some (r, t)" for m'
    using create_inode_inv [OF assms, of m'] by blast
  from this [of S_IFDIR] this [of S_IFREG] have "\<exists>t. sfs_mkdir e s p m = Some (0, t)"
    by (auto simp: sfs_mkdir_def)
  moreover have "create_inode e s p m' = Some (Null, s)" if "free_count (sBlock s) = 0" for m'
    using that create_inode_at [OF assms(1)] by (simp add: free_count_zero_iff)
  ultimately show ?thesis by (simp add: sfs_mkdir_def)
qed

text \<open>Writing never succeeds: the answer is \<open>-1\<close> also for a file that is there and a size within the
  limit of 60 blocks, and only \<open>errno\<close> tells the cases apart.\<close>

lemma write_never_succeeds:
  assumes "fs_inv s" and "cstring p"
  shows "sfs_write e s p buf sz off = Some (- 1, s\<lparr>errno :=
    (if findFileOrDir e s p = Some Null then ENOENT else if unat sz \<le> 60 * 4096 then errno s else EFBIG)\<rparr>)"
  using sfs_write_run [OF assms] by (simp add: write_errno_def)

text \<open>Opening, releasing, opening as a directory and reading ask the same question and give the same
  answer: 0 if the path names an inode, of a file or a directory, and else \<open>-ENOENT\<close>, which also
  goes to \<open>errno\<close>; reading gives no data.\<close>

lemma find_callbacks_agree:
  assumes "fs_inv s" and "cstring p"
  shows "let answer = (if findFileOrDir e s p = Some Null then (- ENOENT, s\<lparr>errno := ENOENT\<rparr>) else (0, s)) in
    sfs_open e s p = Some answer \<and> sfs_release e s p = Some answer \<and> sfs_opendir e s p = Some answer \<and>
    sfs_read e s p buf sz off = Some (fst answer, buf, snd answer)"
  using find_callbacks [OF assms(1,2)] by (simp add: find_answer_def)

section \<open>The whole program\<close>

text \<open>Executing a list of calls and the step relation describe the same runs, so a run is determined by
  its calls and its first state.\<close>

lemma serve_all_iff_run: "serve_all cs s = Some (replies, u) \<longleftrightarrow> fs_run s cs replies u"
  using serve_all_run run_serve_all by blast

end
